theory Spec2Isabelle
  imports Main "HOL-Library.Sublist" "HOL-Library.AList"
begin

section \<open>Python strings\<close>

text \<open>
  A Python \<open>str\<close> is a sequence of Unicode code points. It is modelled as a list of
  natural numbers, one per code point, so that the arrows of the prompt template
  (U+2192) and the characters a JSON \<open>\uXXXX\<close> escape denotes are single elements, as they
  are in Python. \<open>lit\<close> turns an ASCII literal into such a list.
\<close>

type_synonym str = "nat list"

definition lit :: "string \<Rightarrow> str" where
  "lit s = map of_char s"

text \<open>
  \<open>str.isspace\<close> for one code point (CPython's \<open>_PyUnicode_IsWhitespace\<close>), and
  \<open>str.strip()\<close> without argument, which removes such characters at both ends.
\<close>

definition py_isspace :: "nat \<Rightarrow> bool" where
  "py_isspace c \<longleftrightarrow>
     (9 \<le> c \<and> c \<le> 13) \<or> (28 \<le> c \<and> c \<le> 32) \<or> c = 133 \<or> c = 160 \<or> c = 5760 \<or>
     (8192 \<le> c \<and> c \<le> 8202) \<or> c = 8232 \<or> c = 8233 \<or> c = 8239 \<or> c = 8287 \<or> c = 12288"

definition py_strip :: "str \<Rightarrow> str" where
  "py_strip s = rev (dropWhile py_isspace (rev (dropWhile py_isspace s)))"

section \<open>Fence stripping\<close>

text \<open>
  \<^verbatim>\<open>cleaned = re.sub(r"```json|```", "", result).strip()\<close>

  \<open>re.sub\<close> scans the string from the left. At each position it tries the alternatives
  in order, \<^verbatim>\<open>```json\<close> first and \<^verbatim>\<open>```\<close> second; a match is replaced by the empty string
  and the scan goes on behind it, otherwise the character is kept.
\<close>

definition fence :: str where
  "fence = lit ''```''"

definition fence_json :: str where
  "fence_json = lit ''```json''"

function re_sub_fences :: "str \<Rightarrow> str" where
  "re_sub_fences [] = []"
| "re_sub_fences (c # cs) =
     (if prefix fence_json (c # cs) then re_sub_fences (drop (length fence_json) (c # cs))
      else if prefix fence (c # cs) then re_sub_fences (drop (length fence) (c # cs))
      else c # re_sub_fences cs)"
  by pat_completeness auto
termination
  by (relation "measure length") (auto simp: fence_def fence_json_def lit_def)

definition cleaned :: "str \<Rightarrow> str" where
  "cleaned result = py_strip (re_sub_fences result)"

section \<open>Formatting helpers\<close>

text \<open>
  \<open>str(n)\<close> for a non-negative integer (the page and table numbers of the headers), and
  \<open>sep.join(parts)\<close>.
\<close>

fun str_of_nat :: "nat \<Rightarrow> str" where
  "str_of_nat n = (if n < 10 then [48 + n] else str_of_nat (n div 10) @ [48 + n mod 10])"

declare str_of_nat.simps [simp del]

fun py_join :: "str \<Rightarrow> str list \<Rightarrow> str" where
  "py_join sep [] = []"
| "py_join sep [x] = x"
| "py_join sep (x # y # ys) = x @ sep @ py_join sep (y # ys)"

section \<open>Exceptions\<close>

text \<open>
  The exceptions the program can meet. Each carries what \<open>str(e)\<close> gives (for a
  \<open>KeyError\<close>, the \<open>repr\<close> of the key).
\<close>

datatype py_exn =
    PdfReadError str
  | FileNotFoundError str
  | KeyError str
  | IndexError str
  | TypeError str
  | JSONDecodeError str
  | ConnectionError str

fun exn_str :: "py_exn \<Rightarrow> str" where
  "exn_str (PdfReadError m) = m"
| "exn_str (FileNotFoundError m) = m"
| "exn_str (KeyError m) = m"
| "exn_str (IndexError m) = m"
| "exn_str (TypeError m) = m"
| "exn_str (JSONDecodeError m) = m"
| "exn_str (ConnectionError m) = m"

section \<open>Documents and the file system\<close>

text \<open>
  What pdfplumber returns: \<open>page.extract_text()\<close> is a string or \<open>None\<close>,
  \<open>page.extract_tables()\<close> is a list of tables, a table is a list of rows, a row is a list
  of cells, and a cell is a string or \<open>None\<close>.
\<close>

type_synonym cell = "str option"
type_synonym table_row = "cell list"
type_synonym table = "table_row list"

record page =
  extract_text :: "str option"
  extract_tables :: "table list"

text \<open>
  The bytes of an uploaded file are modelled by what \<open>pdfplumber.open\<close> makes of them:
  the pages of the document, or the exception it raises when the file cannot be opened
  or parsed.
\<close>

datatype payload = Readable "page list" | Unreadable py_exn

text \<open>
  The file system, as far as the program touches it: the files that exist, by name, with
  their contents. \<open>tempfile.NamedTemporaryFile\<close> creates a file under a name that is not
  in use; leaving its \<open>with\<close> block closes the file and, only when \<open>delete\<close> is true,
  removes it.
\<close>

type_synonym path = nat
type_synonym filesystem = "(path \<times> payload) list"

definition fs_exists :: "filesystem \<Rightarrow> path \<Rightarrow> bool" where
  "fs_exists fs p \<longleftrightarrow> p \<in> set (map fst fs)"

definition unused_name :: "filesystem \<Rightarrow> path" where
  "unused_name fs = fold (\<lambda>(p, _) n. max (Suc p) n) fs 0"

definition fs_unlink :: "filesystem \<Rightarrow> path \<Rightarrow> filesystem" where
  "fs_unlink fs p = filter (\<lambda>(q, _). q \<noteq> p) fs"

definition NamedTemporaryFile_write :: "bool \<Rightarrow> filesystem \<Rightarrow> payload \<Rightarrow> filesystem \<times> path" where
  "NamedTemporaryFile_write delete fs data =
     (let name = unused_name fs;
          fs1 = fs @ [(name, data)]
      in (if delete then fs_unlink fs1 name else fs1, name))"

definition pdfplumber_open :: "filesystem \<Rightarrow> path \<Rightarrow> py_exn + page list" where
  "pdfplumber_open fs pdf_path =
     (case map_of fs pdf_path of
        None \<Rightarrow> Inl (FileNotFoundError (lit ''No such file or directory''))
      | Some (Unreadable e) \<Rightarrow> Inl e
      | Some (Readable pages) \<Rightarrow> Inr pages)"

section \<open>Document Reader: \<open>extract_text_and_tables\<close>\<close>

text \<open>
  \<^verbatim>\<open>row_text = " | ".join(cell if cell else "" for cell in row)\<close>:
  a cell that is \<open>None\<close> or empty is falsy and gives the empty string.
\<close>

definition cell_or_empty :: "cell \<Rightarrow> str" where
  "cell_or_empty cell = (case cell of None \<Rightarrow> [] | Some s \<Rightarrow> (if s \<noteq> [] then s else []))"

definition row_text :: "table_row \<Rightarrow> str" where
  "row_text row = py_join (lit '' | '') (map cell_or_empty row)"

text \<open>The loop \<^verbatim>\<open>for row in table\<close>, threading \<open>full_text\<close>.\<close>

fun rows_loop :: "str \<Rightarrow> table \<Rightarrow> str" where
  "rows_loop full_text [] = full_text"
| "rows_loop full_text (row # rows) = rows_loop (full_text @ row_text row @ lit ''\<newline>'') rows"

definition table_header :: "nat \<Rightarrow> nat \<Rightarrow> str" where
  "table_header i t_index =
     lit ''\<newline>--- Page '' @ str_of_nat (i + 1) @ lit '' Table '' @ str_of_nat (t_index + 1) @
     lit '' ---\<newline>''"

text \<open>
  The loop \<^verbatim>\<open>for t_index, table in enumerate(tables)\<close>, threading \<open>full_text\<close> and
  \<open>all_tables\<close>.
\<close>

fun tables_loop :: "nat \<Rightarrow> nat \<Rightarrow> str \<times> table list \<Rightarrow> table list \<Rightarrow> str \<times> table list" where
  "tables_loop i t_index (full_text, all_tables) [] = (full_text, all_tables)"
| "tables_loop i t_index (full_text, all_tables) (table # tables) =
     tables_loop i (t_index + 1)
       (rows_loop (full_text @ table_header i t_index) table, all_tables @ [table]) tables"

definition page_header :: "nat \<Rightarrow> str" where
  "page_header i = lit ''\<newline>--- Page '' @ str_of_nat (i + 1) @ lit '' Text ---\<newline>''"

text \<open>
  \<^verbatim>\<open>text if text else '[No text found]'\<close>: \<open>None\<close> and the empty string are falsy.
\<close>

definition text_or_placeholder :: "str option \<Rightarrow> str" where
  "text_or_placeholder text =
     (case text of None \<Rightarrow> lit ''[No text found]''
      | Some s \<Rightarrow> (if s \<noteq> [] then s else lit ''[No text found]''))"

text \<open>The loop \<^verbatim>\<open>for i, page in enumerate(pdf.pages)\<close>.\<close>

fun pages_loop :: "nat \<Rightarrow> str \<times> table list \<Rightarrow> page list \<Rightarrow> str \<times> table list" where
  "pages_loop i (full_text, all_tables) [] = (full_text, all_tables)"
| "pages_loop i (full_text, all_tables) (page # pages) =
     (let text = extract_text page;
          full_text = full_text @ page_header i @ text_or_placeholder text;
          tables = extract_tables page
      in pages_loop (i + 1)
           (if tables \<noteq> [] then tables_loop i 0 (full_text, all_tables) tables
            else (full_text, all_tables))
           pages)"

definition extract_text_and_tables :: "filesystem \<Rightarrow> path \<Rightarrow> py_exn + str \<times> table list" where
  "extract_text_and_tables fs pdf_path =
     (case pdfplumber_open fs pdf_path of
        Inl e \<Rightarrow> Inl e
      | Inr pages \<Rightarrow> Inr (pages_loop 0 ([], []) pages))"

section \<open>The flattened text, as the specification describes it\<close>

text \<open>
  The closed form the loops of the Document Reader are compared with. A page-text section
  is a header with the 1-based page number and the page's text, or the placeholder when
  the page has none; a table section is a header with the page and table numbers and one
  line per row, the cells joined by \<^verbatim>\<open> | \<close>, a missing cell as the empty string.
  \<open>flattened_from i pages\<close> is the text of consecutive pages, the first one at index \<open>i\<close>.
\<close>

definition page_label :: "nat \<Rightarrow> str" where
  "page_label n = lit ''\<newline>--- Page '' @ str_of_nat n @ lit '' Text ---\<newline>''"

definition section_body :: "str option \<Rightarrow> str" where
  "section_body text = (if text = None \<or> text = Some [] then lit ''[No text found]'' else the text)"

definition page_text_section :: "nat \<Rightarrow> page \<Rightarrow> str" where
  "page_text_section n page = page_label n @ section_body (extract_text page)"

definition row_line :: "table_row \<Rightarrow> str" where
  "row_line row =
     py_join (lit '' | '') (map (\<lambda>cell. case cell of None \<Rightarrow> [] | Some s \<Rightarrow> s) row) @ lit ''\<newline>''"

definition table_label :: "nat \<Rightarrow> nat \<Rightarrow> str" where
  "table_label n k =
     lit ''\<newline>--- Page '' @ str_of_nat n @ lit '' Table '' @ str_of_nat k @ lit '' ---\<newline>''"

definition table_section :: "nat \<Rightarrow> nat \<Rightarrow> table \<Rightarrow> str" where
  "table_section n k table = table_label n k @ concat (map row_line table)"

definition table_sections :: "nat \<Rightarrow> nat \<Rightarrow> table list \<Rightarrow> str" where
  "table_sections n t tables =
     concat (map (\<lambda>(k, table). table_section n (k + 1) table) (enumerate t tables))"

definition flattened_from :: "nat \<Rightarrow> page list \<Rightarrow> str" where
  "flattened_from i pages =
     concat (map (\<lambda>(j, page). page_text_section (j + 1) page @ table_sections (j + 1) 0 (extract_tables page))
       (enumerate i pages))"

text \<open>A three-page document used to run the reader.\<close>

definition example_pages :: "page list" where
  "example_pages =
     [\<lparr>extract_text = Some (lit ''Rating: Buy''), extract_tables = []\<rparr>,
      \<lparr>extract_text = None,
       extract_tables = [[[Some (lit ''a''), None, Some (lit ''b'')], [Some []]], []]\<rparr>,
      \<lparr>extract_text = Some [], extract_tables = []\<rparr>]"

section \<open>Prompt Builder: \<open>create_prompt\<close>\<close>

text \<open>
  The f-string of \<open>create_prompt\<close>, line by line as in the source, with \<^verbatim>\<open>{{\<close>, \<^verbatim>\<open>}}\<close> and
  the escaped quotes rendered (8594 is the arrow U+2192). The lines up to the place of
  \<^verbatim>\<open>{text_content}\<close> come in three groups: the introduction, the JSON object with the
  fields to fill, and the extraction rules. Every line ends with a line feed; the
  introduction starts with the empty rest of the line that opens the f-string.
\<close>

definition template_intro :: "str list" where
  \<open>template_intro =
    [[],
     lit ''You are a financial data extractor.'',
     [],
     lit ''From the content below, extract and return this JSON object:'',
     []]\<close>

definition template_schema :: "str list" where
  \<open>template_schema =
    [lit ''{'',
     lit ''  "reviewer": "",'',
     lit ''  "reviewee": "",'',
     lit ''  "analyst": "",'',
     lit ''  "analystMail": "",'',
     lit ''  "analystPhone": "",'',
     lit ''  "rating": "",'',
     lit ''  "current_price": "",'',
     lit ''  "target_price": "",'',
     lit ''  "previous_target": "",'',
     lit ''  "comments": "",'',
     lit ''  "revenueFY24E": "",'',
     lit ''  "ebitdaFY24E": "",'',
     lit ''  "ebitdaMarginFY24E": "",'',
     lit ''  "patFY24E": "",'',
     lit ''  "revenueFY25E": "",'',
     lit ''  "ebitdaFY25E": "",'',
     lit ''  "ebitdaMarginFY25E": "",'',
     lit ''  "patFY25E": "",'',
     lit ''  "revenue3QFY24": "",'',
     lit ''  "ebitda3QFY24": "",'',
     lit ''  "ebitda3QFY24yoy": "",'',
     lit ''  "ebitda3QFY24qoq": "",'',
     lit ''  "ebitdaMargin3QFY24": "",'',
     lit ''  "pat3QFY24": "",'',
     lit ''  "pat3QFY24yoy": "",'',
     lit ''  "pat3QFY24qoq": ""'',
     lit ''}'']\<close>

definition template_rules :: "str list" where
  \<open>template_rules =
    [[],
     lit ''Accept label variations such as:'',
     lit ''- Give the name of the company that has produced or written this review under the key "reviewer"'',
     lit ''- Give the name of the company about which this report is written about under the key "reviewee"'',
     lit ''- Give the full name of the analyst that written the report under the key "analyst". In case of multiple analysts, give only the first person.'',
     lit ''- Give the email of the analyst under the key "analystMail". Include all special characters.'',
     lit ''- Give the phone number of the analyst under the key "analystPhone". Include '+' and space in place of '-'.'',
     lit ''- Extract stock rating terms like: buy, sell, hold, add, reduce, overweight, neutral under "rating"'',
     lit ''- "CMP","Price Now","Current Market Price" '' @ [8594] @ lit '' current_price'',
     lit ''- "TP","Target","Target Price" '' @ [8594] @ lit '' target_price'',
     lit ''- "Previous TP","PT" '' @ [8594] @ lit '' previous_target'',
     lit ''- If "Retain/maintain rating" '' @ [8594] @ lit '' comments = "Maintain Rating". If changed, write as "Rating changged to (new rating)"'',
     [],
     lit ''Look for revenue/EBITDA/PAT values in tables with rows like:'',
     lit ''- Revenue, Sales '' @ [8594] @ lit '' revenueFY24E, revenueFY25E, revenue3QFY24'',
     lit ''- EBITDA '' @ [8594] @ lit '' ebitdaFY24E, ebitdaFY25E, ebitda3QFY24'',
     lit ''- PAT, Profit after tax '' @ [8594] @ lit '' patFY24E, patFY25E, pat3QFY24'',
     lit ''- EBITDA margin, EBITDS margin % '' @ [8594] @ lit '' ebitdaMarginFY24E, etc.'',
     lit ''- YoY/QoQ fields '' @ [8594] @ lit '' like "EBITDA YoY", "PAT QoQ"'',
     [],
     lit ''Clean all values:'',
     lit ''- Only keep digits, negative signs, or decimal points'',
     lit ''- For example, "-1.2 3%(7)" '' @ [8594] @ lit '' "-1.23"'',
     [],
     lit ''If value is in USD, convert it to INR (1 USD = 85.71) '' @ [8594] @ lit '' then to billions'',
     [],
     lit ''Return **only a valid JSON object**. Do not explain. Do not wrap in code blocks.'',
     [],
     lit ''PDF Content:'',
     lit ''"""'']\<close>

definition template_after :: "str list" where
  \<open>template_after = [[], lit ''"""'']\<close>

definition unlines :: "str list \<Rightarrow> str" where
  "unlines ls = concat (map (\<lambda>l. l @ [10]) ls)"

definition create_prompt :: "str \<Rightarrow> str" where
  "create_prompt text_content =
     unlines (template_intro @ template_schema @ template_rules) @ text_content @
     unlines template_after"

section \<open>The upload processing loop\<close>

text \<open>
  \<^verbatim>\<open>for file in uploaded_files:\<close> with its three statements: the temporary file is
  written and closed (\<open>delete=False\<close>), the Document Reader is called on its name, and the
  results are added to \<open>all_text\<close> and \<open>all_tables_combined\<close>. Nothing catches an exception
  of the reader, so it ends the loop and the run of the script; no statement removes the
  temporary file.
\<close>

fun upload_loop ::
  "filesystem \<Rightarrow> str \<times> table list \<Rightarrow> payload list \<Rightarrow> filesystem \<times> (py_exn + str \<times> table list)" where
  "upload_loop fs (all_text, all_tables_combined) [] = (fs, Inr (all_text, all_tables_combined))"
| "upload_loop fs (all_text, all_tables_combined) (file # files) =
     (let (fs1, pdf_path) = NamedTemporaryFile_write False fs file
      in case extract_text_and_tables fs1 pdf_path of
           Inl e \<Rightarrow> (fs1, Inl e)
         | Inr (text_content, table_data) \<Rightarrow>
             upload_loop fs1
               (all_text @ text_content @ lit ''\<newline>\<newline>'', all_tables_combined @ table_data)
               files)"

text \<open>
  The section \<^verbatim>\<open>if uploaded_files and API_KEY:\<close> up to \<open>default_prompt\<close>: \<open>None\<close> when the
  guard is false, otherwise the exception that ended the run or the default prompt with
  the combined tables.
\<close>

definition process_pdfs ::
  "filesystem \<Rightarrow> payload list \<Rightarrow> str \<Rightarrow> filesystem \<times> (py_exn + str \<times> table list) option" where
  "process_pdfs fs uploaded_files API_KEY =
     (if uploaded_files \<noteq> [] \<and> API_KEY \<noteq> [] then
        (case upload_loop fs ([], []) uploaded_files of
           (fs', Inl e) \<Rightarrow> (fs', Some (Inl e))
         | (fs', Inr (all_text, all_tables_combined)) \<Rightarrow>
             (fs', Some (Inr (create_prompt all_text, all_tables_combined))))
      else (fs, None))"

section \<open>The upload loop, in closed form\<close>

text \<open>
  \<open>tmp_files fs ds\<close> is the file system after one temporary file has been created for each
  of the payloads \<open>ds\<close>, in order, and none removed. \<open>files_written files\<close> are the uploads
  the loop gets to: the readable ones at the front and the first unreadable one, if any.
  \<open>reader_output\<close>, \<open>combined_text\<close> and \<open>combined_tables\<close> describe what the loop
  accumulates when every upload is readable.
\<close>

fun tmp_files :: "filesystem \<Rightarrow> payload list \<Rightarrow> filesystem" where
  "tmp_files fs [] = fs"
| "tmp_files fs (d # ds) = tmp_files (fs @ [(unused_name fs, d)]) ds"

fun is_readable :: "payload \<Rightarrow> bool" where
  "is_readable (Readable pages) = True"
| "is_readable (Unreadable e) = False"

fun reader_output :: "payload \<Rightarrow> str \<times> table list" where
  "reader_output (Readable pages) = (flattened_from 0 pages, concat (map extract_tables pages))"
| "reader_output (Unreadable e) = ([], [])"

definition files_written :: "payload list \<Rightarrow> payload list" where
  "files_written files = takeWhile is_readable files @ take 1 (dropWhile is_readable files)"

definition example_uploads :: "payload list" where
  "example_uploads =
     [Readable [\<lparr>extract_text = Some (lit ''A''), extract_tables = []\<rparr>],
      Unreadable (PdfReadError (lit ''No /Root object! - Is this really a PDF?'')),
      Readable [\<lparr>extract_text = Some (lit ''B''), extract_tables = []\<rparr>]]"

definition combined_text :: "payload list \<Rightarrow> str" where
  "combined_text files = concat (map (\<lambda>f. fst (reader_output f) @ lit ''\<newline>\<newline>'') files)"

definition combined_tables :: "payload list \<Rightarrow> table list" where
  "combined_tables files = concat (map (\<lambda>f. snd (reader_output f)) files)"

section \<open>Python values and \<open>json.loads\<close>\<close>

text \<open>
  The values \<open>json.loads\<close> builds. A \<open>float\<close> is kept as the text of its literal (the
  argument the decoder hands to \<open>float\<close>, also for \<open>NaN\<close>, \<open>Infinity\<close> and \<open>-Infinity\<close>), so no
  floating-point arithmetic enters the model. A \<open>dict\<close> is the list of its items in
  insertion order, with distinct keys.
\<close>

datatype py_value =
    PyNone
  | PyBool bool
  | PyInt int
  | PyFloat str
  | PyStr str
  | PyList "py_value list"
  | PyDict "(str \<times> py_value) list"

text \<open>
  \<open>dict(pairs)\<close>: a key met again keeps its place and takes the later value.
\<close>

definition dict_of_pairs :: "(str \<times> py_value) list \<Rightarrow> (str \<times> py_value) list" where
  "dict_of_pairs pairs = fold (\<lambda>(k, v) d. AList.update k v d) pairs []"

text \<open>
  The decoder follows CPython's scanner (\<open>Modules/_json.c\<close>, with \<open>strict=True\<close> and no
  hooks). It ends with a value or with an exception: \<open>JSONDecodeError\<close>, recorded with its
  message (the position is left out, the program never reads it); \<open>RecursionError\<close>, when
  the text nests arrays and objects deeper than the interpreter allows; or \<open>ValueError\<close>,
  when an integer literal has more digits than the interpreter converts. Only the first
  is a \<open>JSONDecodeError\<close>. \<open>Out_of_fuel\<close> is no exception of Python: it is the answer of
  the recursion below when its counter is used up, which \<open>json_loads\<close> never lets happen.
\<close>

datatype json_error =
    Expecting_value
  | Extra_data
  | Unexpected_BOM
  | Unterminated_string
  | Invalid_control_character
  | Invalid_escape
  | Invalid_uXXXX_escape
  | Expecting_property_name
  | Expecting_colon_delimiter
  | Expecting_comma_delimiter
  | Recursion_error
  | Int_digits_error
  | Out_of_fuel

definition is_JSONDecodeError :: "json_error \<Rightarrow> bool" where
  "is_JSONDecodeError e \<longleftrightarrow> e \<noteq> Recursion_error \<and> e \<noteq> Int_digits_error \<and> e \<noteq> Out_of_fuel"

text \<open>
  The state of the interpreter \<open>json.loads\<close> depends on: how many nested calls it still
  allows before it raises \<open>RecursionError\<close> (the scanner enters one for every array and
  object it opens), and the bound on the digits of an integer literal
  (\<open>sys.get_int_max_str_digits()\<close>, 4300 unless set otherwise, 0 for none; the bound is
  only looked at for more than 640 digits).
\<close>

record interpreter =
  recursion_depth :: nat
  int_max_str_digits :: nat

definition is_json_ws :: "nat \<Rightarrow> bool" where
  "is_json_ws c \<longleftrightarrow> c = 32 \<or> c = 9 \<or> c = 10 \<or> c = 13"

definition skip_ws :: "str \<Rightarrow> str" where
  "skip_ws s = dropWhile is_json_ws s"

definition is_digit :: "nat \<Rightarrow> bool" where
  "is_digit c \<longleftrightarrow> 48 \<le> c \<and> c \<le> 57"

subsection \<open>Strings\<close>

definition hex_digit :: "nat \<Rightarrow> nat option" where
  "hex_digit c =
     (if 48 \<le> c \<and> c \<le> 57 then Some (c - 48)
      else if 97 \<le> c \<and> c \<le> 102 then Some (c - 87)
      else if 65 \<le> c \<and> c \<le> 70 then Some (c - 55)
      else None)"

text \<open>The four hexadecimal digits of a \<open>\uXXXX\<close> escape, and what follows them.\<close>

definition decode_uXXXX :: "str \<Rightarrow> (nat \<times> str) option" where
  "decode_uXXXX s =
     (case s of
        a # b # c # d # rest \<Rightarrow>
          (case (hex_digit a, hex_digit b, hex_digit c, hex_digit d) of
             (Some x3, Some x2, Some x1, Some x0) \<Rightarrow> Some (4096 * x3 + 256 * x2 + 16 * x1 + x0, rest)
           | _ \<Rightarrow> None)
      | _ \<Rightarrow> None)"

definition is_high_surrogate :: "nat \<Rightarrow> bool" where
  "is_high_surrogate c \<longleftrightarrow> 55296 \<le> c \<and> c \<le> 56319"

definition is_low_surrogate :: "nat \<Rightarrow> bool" where
  "is_low_surrogate c \<longleftrightarrow> 56320 \<le> c \<and> c \<le> 57343"

definition join_surrogates :: "nat \<Rightarrow> nat \<Rightarrow> nat" where
  "join_surrogates hi lo = 65536 + ((hi - 55296) * 1024 + (lo - 56320))"

text \<open>The character after a backslash, when it is not \<open>u\<close>.\<close>

definition backslash_escape :: "nat \<Rightarrow> nat option" where
  "backslash_escape c =
     (if c = 34 then Some 34
      else if c = 92 then Some 92
      else if c = 47 then Some 47
      else if c = 98 then Some 8
      else if c = 102 then Some 12
      else if c = 110 then Some 10
      else if c = 114 then Some 13
      else if c = 116 then Some 9
      else None)"

definition cons_char :: "nat \<Rightarrow> json_error + str \<times> str \<Rightarrow> json_error + str \<times> str" where
  "cons_char c r = (case r of Inl e \<Rightarrow> Inl e | Inr (s, rest) \<Rightarrow> Inr (c # s, rest))"

text \<open>
  The first escape of a pair, or a single one: the scanner wants one more character
  behind the four digits.
\<close>

definition scan_uXXXX :: "str \<Rightarrow> (nat \<times> str) option" where
  "scan_uXXXX s = (if length s \<le> 4 then None else decode_uXXXX s)"

lemma decode_uXXXX_length [termination_simp]:
  "decode_uXXXX s = Some (u, r) \<Longrightarrow> length r < length s"
  by (auto simp: decode_uXXXX_def split: list.splits option.splits)

lemma scan_uXXXX_length [termination_simp]:
  "scan_uXXXX s = Some (u, r) \<Longrightarrow> length r < length s"
  by (auto simp: scan_uXXXX_def dest: decode_uXXXX_length split: if_splits)

text \<open>
  \<open>scanstring\<close>, called behind the opening quote: the decoded string and the input behind
  the closing quote. A \<open>\uXXXX\<close> escape needs its four digits and one more character
  behind them. A high surrogate escape directly followed by a low surrogate escape gives
  one character; the second escape is looked at only if at least one character follows
  it.
\<close>

function scanstring :: "str \<Rightarrow> json_error + str \<times> str" where
  "scanstring [] = Inl Unterminated_string"
| "scanstring (c # cs) =
     (if c = 34 then Inr ([], cs)
      else if c = 92 then
        (case cs of
           [] \<Rightarrow> Inl Unterminated_string
         | e # es \<Rightarrow>
             if e = 117 then
               (case scan_uXXXX es of
                  None \<Rightarrow> Inl Invalid_uXXXX_escape
                | Some (uni, r) \<Rightarrow>
                    if is_high_surrogate uni \<and> 6 < length r \<and> prefix [92, 117] r then
                      (case decode_uXXXX (drop 2 r) of
                         None \<Rightarrow> Inl Invalid_uXXXX_escape
                       | Some (uni2, r2) \<Rightarrow>
                           if is_low_surrogate uni2
                           then cons_char (join_surrogates uni uni2) (scanstring r2)
                           else cons_char uni (scanstring r))
                    else cons_char uni (scanstring r))
             else
               (case backslash_escape e of
                  None \<Rightarrow> Inl Invalid_escape
                | Some ch \<Rightarrow> cons_char ch (scanstring es)))
      else if c \<le> 31 then Inl Invalid_control_character
      else cons_char c (scanstring cs))"
  by pat_completeness auto
termination
  by (relation "measure length") (auto dest!: decode_uXXXX_length scan_uXXXX_length)

subsection \<open>Numbers\<close>

text \<open>
  \<open>_match_number\<close>: an optional minus, then \<open>0\<close> or a digit from 1 to 9 with more digits,
  then a fraction (a dot and at least one digit) and an exponent (\<open>e\<close> or \<open>E\<close>, an optional
  sign and at least one digit), each only if it is complete. With neither, the literal
  is an \<open>int\<close>, unless it has more digits than the interpreter converts.
\<close>

fun int_of_digits :: "int \<Rightarrow> str \<Rightarrow> int" where
  "int_of_digits acc [] = acc"
| "int_of_digits acc (d # ds) = int_of_digits (10 * acc + (int d - 48)) ds"

definition match_fraction :: "str \<Rightarrow> str \<times> str" where
  "match_fraction s =
     (case s of
        dot # d # ds \<Rightarrow>
          if dot = 46 \<and> is_digit d
          then (dot # takeWhile is_digit (d # ds), dropWhile is_digit (d # ds))
          else ([], s)
      | _ \<Rightarrow> ([], s))"

definition match_exponent :: "str \<Rightarrow> str \<times> str" where
  "match_exponent s =
     (case s of
        [] \<Rightarrow> ([], s)
      | e # es \<Rightarrow>
          if e = 101 \<or> e = 69 then
            (let sign = (case es of [] \<Rightarrow> [] | g # _ \<Rightarrow> if g = 45 \<or> g = 43 then [g] else []);
                 ds = drop (length sign) es
             in if takeWhile is_digit ds \<noteq> []
                then (e # sign @ takeWhile is_digit ds, dropWhile is_digit ds)
                else ([], s))
          else ([], s))"

definition match_number :: "nat \<Rightarrow> str \<Rightarrow> json_error + py_value \<times> str" where
  "match_number max_digits s =
     (let sign = (case s of [] \<Rightarrow> [] | m # _ \<Rightarrow> if m = 45 then [m] else []);
          s1 = drop (length sign) s
      in case s1 of
           [] \<Rightarrow> Inl Expecting_value
         | d # ds \<Rightarrow>
             if 49 \<le> d \<and> d \<le> 57 \<or> d = 48 then
               (let digits = (if d = 48 then [d] else d # takeWhile is_digit ds);
                    s2 = drop (length digits) s1;
                    (frac, s3) = match_fraction s2;
                    (ex, s4) = match_exponent s3
                in if frac = [] \<and> ex = []
                   then
                     (if 640 < length digits \<and> 0 < max_digits \<and> max_digits < length digits
                      then Inl Int_digits_error
                      else Inr (PyInt (if sign = [] then int_of_digits 0 digits
                                       else - int_of_digits 0 digits), s4))
                   else Inr (PyFloat (sign @ digits @ frac @ ex), s4))
             else Inl Expecting_value)"

subsection \<open>Values\<close>

text \<open>
  \<open>scan_once\<close> with \<open>_parse_array\<close> and \<open>_parse_object\<close>. Opening an array or an
  object takes one of the nested calls the interpreter still allows. The first argument
  bounds the number of calls and loop rounds of the model; every one of them comes after
  at least one character has been read.
\<close>

fun parse_value :: "nat \<Rightarrow> interpreter \<Rightarrow> str \<Rightarrow> json_error + py_value \<times> str"
  and parse_array ::
    "nat \<Rightarrow> interpreter \<Rightarrow> py_value list \<Rightarrow> str \<Rightarrow> json_error + py_value \<times> str"
  and parse_object ::
    "nat \<Rightarrow> interpreter \<Rightarrow> (str \<times> py_value) list \<Rightarrow> str \<Rightarrow> json_error + py_value \<times> str"
  where
  "parse_value 0 i s = Inl Out_of_fuel"
| "parse_value (Suc n) i s =
     (case s of
        [] \<Rightarrow> Inl Expecting_value
      | c # cs \<Rightarrow>
          if c = 34 then
            (case scanstring cs of Inl e \<Rightarrow> Inl e | Inr (str, rest) \<Rightarrow> Inr (PyStr str, rest))
          else if c = 123 then
            (if recursion_depth i = 0 then Inl Recursion_error
             else
               (case skip_ws cs of
                  [] \<Rightarrow> Inl Expecting_property_name
                | d # ds \<Rightarrow>
                    if d = 125 then Inr (PyDict [], ds)
                    else parse_object n (i\<lparr>recursion_depth := recursion_depth i - 1\<rparr>) [] (d # ds)))
          else if c = 91 then
            (if recursion_depth i = 0 then Inl Recursion_error
             else
               (case skip_ws cs of
                  [] \<Rightarrow> Inl Expecting_value
                | d # ds \<Rightarrow>
                    if d = 93 then Inr (PyList [], ds)
                    else parse_array n (i\<lparr>recursion_depth := recursion_depth i - 1\<rparr>) [] (d # ds)))
          else if prefix (lit ''null'') s then Inr (PyNone, drop 4 s)
          else if prefix (lit ''true'') s then Inr (PyBool True, drop 4 s)
          else if prefix (lit ''false'') s then Inr (PyBool False, drop 5 s)
          else if prefix (lit ''NaN'') s then Inr (PyFloat (lit ''NaN''), drop 3 s)
          else if prefix (lit ''Infinity'') s then Inr (PyFloat (lit ''Infinity''), drop 8 s)
          else if prefix (lit ''-Infinity'') s then Inr (PyFloat (lit ''-Infinity''), drop 9 s)
          else match_number (int_max_str_digits i) s)"
| "parse_array 0 i values s = Inl Out_of_fuel"
| "parse_array (Suc n) i values s =
     (case parse_value n i s of
        Inl e \<Rightarrow> Inl e
      | Inr (val, rest) \<Rightarrow>
          (case skip_ws rest of
             [] \<Rightarrow> Inl Expecting_comma_delimiter
           | d # ds \<Rightarrow>
               if d = 93 then Inr (PyList (values @ [val]), ds)
               else if d = 44 then parse_array n i (values @ [val]) (skip_ws ds)
               else Inl Expecting_comma_delimiter))"
| "parse_object 0 i pairs s = Inl Out_of_fuel"
| "parse_object (Suc n) i pairs s =
     (case s of
        [] \<Rightarrow> Inl Expecting_property_name
      | q # qs \<Rightarrow>
          if q \<noteq> 34 then Inl Expecting_property_name
          else
            (case scanstring qs of
               Inl e \<Rightarrow> Inl e
             | Inr (key, rest) \<Rightarrow>
                 (case skip_ws rest of
                    [] \<Rightarrow> Inl Expecting_colon_delimiter
                  | c # cs \<Rightarrow>
                      if c \<noteq> 58 then Inl Expecting_colon_delimiter
                      else
                        (case parse_value n i (skip_ws cs) of
                           Inl e \<Rightarrow> Inl e
                         | Inr (val, rest2) \<Rightarrow>
                             (case skip_ws rest2 of
                                [] \<Rightarrow> Inl Expecting_comma_delimiter
                              | d # ds \<Rightarrow>
                                  if d = 125
                                  then Inr (PyDict (dict_of_pairs (pairs @ [(key, val)])), ds)
                                  else if d = 44
                                  then parse_object n i (pairs @ [(key, val)]) (skip_ws ds)
                                  else Inl Expecting_comma_delimiter)))))"

text \<open>
  \<open>json.loads(s)\<close> for a \<open>str\<close>: a leading byte order mark is refused, white space around
  the value is skipped, and anything left behind the value is \<open>Extra data\<close>.
\<close>

definition json_loads :: "interpreter \<Rightarrow> str \<Rightarrow> json_error + py_value" where
  "json_loads i s =
     (if prefix [65279] s then Inl Unexpected_BOM
      else
        (case parse_value (2 * length s + 1) i (skip_ws s) of
           Inl e \<Rightarrow> Inl e
         | Inr (obj, rest) \<Rightarrow> if skip_ws rest = [] then Inr obj else Inl Extra_data))"

section \<open>The field schema\<close>

text \<open>
  The names of the fields the JSON object of the template declares, in the order of the
  template, and the object that gives each of them the empty string.
\<close>

definition declared_fields :: "str list" where
  "declared_fields =
     [lit ''reviewer'', lit ''reviewee'', lit ''analyst'', lit ''analystMail'', lit ''analystPhone'',
      lit ''rating'', lit ''current_price'', lit ''target_price'', lit ''previous_target'',
      lit ''comments'', lit ''revenueFY24E'', lit ''ebitdaFY24E'', lit ''ebitdaMarginFY24E'',
      lit ''patFY24E'', lit ''revenueFY25E'', lit ''ebitdaFY25E'', lit ''ebitdaMarginFY25E'',
      lit ''patFY25E'', lit ''revenue3QFY24'', lit ''ebitda3QFY24'', lit ''ebitda3QFY24yoy'',
      lit ''ebitda3QFY24qoq'', lit ''ebitdaMargin3QFY24'', lit ''pat3QFY24'', lit ''pat3QFY24yoy'',
      lit ''pat3QFY24qoq'']"

definition empty_defaults :: "str list \<Rightarrow> (str \<times> py_value) list" where
  "empty_defaults names = map (\<lambda>f. (f, PyStr [])) names"

section \<open>The user interface\<close>

text \<open>
  What the functions show to the operator: the calls of \<open>st.error\<close> and \<open>st.text\<close>, in
  order.
\<close>

datatype st_call = St_error str | St_text str

section \<open>Subscripting a decoded value\<close>

text \<open>
  \<open>value[key]\<close> for the values \<open>json.loads\<close> builds, with a string key or a non-negative
  index: the element, or the exception Python raises. The keys of a decoded \<open>dict\<close> are
  strings, so an index is never among them. \<open>repr_key\<close> is \<open>repr\<close> for a key without
  quotes or escapes, as the keys of the envelope are.
\<close>

datatype py_key = Key str | Index nat

definition repr_key :: "py_key \<Rightarrow> str" where
  "repr_key k = (case k of Key s \<Rightarrow> [39] @ s @ [39] | Index i \<Rightarrow> str_of_nat i)"

definition not_subscriptable :: "str \<Rightarrow> py_exn" where
  "not_subscriptable type_name = TypeError ([39] @ type_name @ [39] @ lit '' object is not subscriptable'')"

fun py_getitem :: "py_value \<Rightarrow> py_key \<Rightarrow> py_exn + py_value" where
  "py_getitem (PyDict d) (Key k) =
     (case map_of d k of Some v \<Rightarrow> Inr v | None \<Rightarrow> Inl (KeyError (repr_key (Key k))))"
| "py_getitem (PyDict d) (Index i) = Inl (KeyError (repr_key (Index i)))"
| "py_getitem (PyList xs) (Index i) =
     (if i < length xs then Inr (xs ! i) else Inl (IndexError (lit ''list index out of range'')))"
| "py_getitem (PyList xs) (Key k) =
     Inl (TypeError (lit ''list indices must be integers or slices, not str''))"
| "py_getitem (PyStr s) (Index i) =
     (if i < length s then Inr (PyStr [s ! i])
      else Inl (IndexError (lit ''string index out of range'')))"
| "py_getitem (PyStr s) (Key k) =
     Inl (TypeError (lit ''string indices must be integers, not '' @ [39] @ lit ''str'' @ [39]))"
| "py_getitem PyNone k = Inl (not_subscriptable (lit ''NoneType''))"
| "py_getitem (PyBool b) k = Inl (not_subscriptable (lit ''bool''))"
| "py_getitem (PyInt i) k = Inl (not_subscriptable (lit ''int''))"
| "py_getitem (PyFloat f) k = Inl (not_subscriptable (lit ''float''))"

definition then_getitem :: "py_exn + py_value \<Rightarrow> py_key \<Rightarrow> py_exn + py_value" where
  "then_getitem r k = (case r of Inl e \<Rightarrow> Inl e | Inr v \<Rightarrow> py_getitem v k)"

section \<open>Extraction Client: \<open>query_gemini\<close>\<close>

text \<open>
  The request \<open>requests.post\<close> sends and the response it returns, by the attributes the
  function reads: \<open>status_code\<close>, \<open>text\<close>, and the outcome of \<open>json()\<close>, a decoded value or
  the exception it raises on a body that is no JSON. \<open>ok\<close> is false exactly for the status
  codes from 400 to 599.
\<close>

record request =
  req_url :: str
  req_headers :: "(str \<times> str) list"
  req_json :: py_value

record response =
  status_code :: nat
  resp_text :: str
  resp_json :: "py_exn + py_value"

definition resp_ok :: "response \<Rightarrow> bool" where
  "resp_ok r \<longleftrightarrow> \<not> (400 \<le> status_code r \<and> status_code r < 600)"

definition gemini_request :: "str \<Rightarrow> str \<Rightarrow> request" where
  "gemini_request prompt api_key =
     \<lparr>req_url =
        lit ''https://generativelanguage.googleapis.com/v1beta/models/gemini-2.0-flash:generateContent?key='' @
        api_key,
      req_headers = [(lit ''Content-Type'', lit ''application/json'')],
      req_json =
        PyDict [(lit ''contents'',
                 PyList [PyDict [(lit ''parts'', PyList [PyDict [(lit ''text'', PyStr prompt)]])]])]\<rparr>"

text \<open>
  \<^verbatim>\<open>response.json()["candidates"][0]["content"]["parts"][0]["text"]\<close>
\<close>

definition candidate_text :: "response \<Rightarrow> py_exn + py_value" where
  "candidate_text r =
     then_getitem (then_getitem (then_getitem (then_getitem (then_getitem (then_getitem
       (resp_json r) (Key (lit ''candidates''))) (Index 0)) (Key (lit ''content'')))
       (Key (lit ''parts''))) (Index 0)) (Key (lit ''text''))"

text \<open>
  The state \<open>query_gemini\<close> works on: what has been shown to the operator and the requests
  sent so far. \<open>post\<close> is the network: it answers a request with a response, or raises
  (no connection), and that exception is not caught. The result is the returned value,
  or the exception that leaves the function.
\<close>

record session =
  shown :: "st_call list"
  sent :: "request list"

definition query_gemini ::
  "(request \<Rightarrow> py_exn + response) \<Rightarrow> str \<Rightarrow> str \<Rightarrow> session \<Rightarrow> (py_exn + py_value) \<times> session" where
  "query_gemini post prompt api_key s =
     (let rq = gemini_request prompt api_key;
          s1 = s\<lparr>sent := sent s @ [rq]\<rparr>
      in case post rq of
           Inl e \<Rightarrow> (Inl e, s1)
         | Inr r \<Rightarrow>
             if resp_ok r then
               (case candidate_text r of
                  Inr v \<Rightarrow> (Inr v, s1)
                | Inl e \<Rightarrow>
                    (Inr PyNone,
                     s1\<lparr>shown := shown s1 @
                        [St_error (lit ''Parsing Gemini response failed: '' @ exn_str e)]\<rparr>))
             else
               (Inr PyNone,
                s1\<lparr>shown := shown s1 @
                   [St_error (lit ''Gemini API Error: '' @ str_of_nat (status_code r)),
                    St_text (resp_text r)]\<rparr>))"

section \<open>Response Parser: \<open>parse_json_response\<close>\<close>

text \<open>
  The function returns the decoded value, or \<open>None\<close> after it has shown the error and the
  raw text. \<^verbatim>\<open>except json.JSONDecodeError\<close> catches that exception only: any other one that
  \<open>json.loads\<close> raises leaves the function (\<open>Inl\<close>). The function takes what has been shown
  so far and returns it extended.
\<close>

definition parse_json_response ::
  "interpreter \<Rightarrow> str \<Rightarrow> st_call list \<Rightarrow> (json_error + py_value) \<times> st_call list" where
  "parse_json_response i result ui =
     (case json_loads i (cleaned result) of
        Inr v \<Rightarrow> (Inr v, ui)
      | Inl e \<Rightarrow>
          if is_JSONDecodeError e
          then (Inr PyNone, ui @ [St_error (lit ''JSON parse error''), St_text result])
          else (Inl e, ui))"

section \<open>Example responses and interpreter states\<close>

text \<open>
  A response envelope with every field \<open>query_gemini\<close> reads, one whose text part is
  \<open>null\<close>, and a network that answers every request with a given response. An
  interpreter that allows a given number of nested calls, with the default bound on the
  digits of an integer.
\<close>

definition envelope :: "py_value \<Rightarrow> py_value" where
  "envelope text_part =
     PyDict [(lit ''candidates'',
       PyList [PyDict [(lit ''content'',
         PyDict [(lit ''parts'', PyList [PyDict [(lit ''text'', text_part)]])])]])]"

definition good_envelope :: py_value where
  "good_envelope = envelope (PyStr (lit ''{}''))"

definition example_post :: "response \<Rightarrow> request \<Rightarrow> py_exn + response" where
  "example_post r rq = Inr r"

definition interpreter_with :: "nat \<Rightarrow> interpreter" where
  "interpreter_with depth = \<lparr>recursion_depth = depth, int_max_str_digits = 4300\<rparr>"

section \<open>\<open>json.dumps\<close> for a mapping of strings\<close>

text \<open>
  \<open>json.dumps(mapping)\<close> with the default settings (\<open>ensure_ascii=True\<close>, separators
  \<^verbatim>\<open>", "\<close> and \<^verbatim>\<open>": "\<close>) for a \<open>dict\<close> whose keys and values are strings, given as the list of
  its items. A character outside the printable ASCII range is written as a \<open>\uXXXX\<close>
  escape with lower-case digits, one beyond U+FFFF as a surrogate pair of escapes.
\<close>

definition hex_char :: "nat \<Rightarrow> nat" where
  "hex_char d = (if d < 10 then 48 + d else 87 + d)"

definition hex4 :: "nat \<Rightarrow> str" where
  "hex4 n =
     [hex_char (n div 4096 mod 16), hex_char (n div 256 mod 16), hex_char (n div 16 mod 16),
      hex_char (n mod 16)]"

definition escape_char :: "nat \<Rightarrow> str" where
  "escape_char c =
     (if c = 34 then [92, 34]
      else if c = 92 then [92, 92]
      else if c = 10 then [92, 110]
      else if c = 13 then [92, 114]
      else if c = 9 then [92, 116]
      else if c = 8 then [92, 98]
      else if c = 12 then [92, 102]
      else if 32 \<le> c \<and> c \<le> 126 then [c]
      else if c < 65536 then [92, 117] @ hex4 c
      else
        (let v = c - 65536
         in [92, 117] @ hex4 (55296 + v div 1024 mod 1024) @
            [92, 117] @ hex4 (56320 + v mod 1024)))"

definition encode_basestring_ascii :: "str \<Rightarrow> str" where
  "encode_basestring_ascii s = [34] @ concat (map escape_char s) @ [34]"

definition dumps_item :: "str \<times> str \<Rightarrow> str" where
  "dumps_item kv =
     encode_basestring_ascii (fst kv) @ lit '': '' @ encode_basestring_ascii (snd kv)"

definition json_dumps :: "(str \<times> str) list \<Rightarrow> str" where
  "json_dumps mapping = [123] @ py_join (lit '', '') (map dumps_item mapping) @ [125]"

text \<open>What \<open>json.loads\<close> builds from a mapping of strings.\<close>

definition dict_of_strings :: "(str \<times> str) list \<Rightarrow> py_value" where
  "dict_of_strings mapping = PyDict (map (\<lambda>kv. (fst kv, PyStr (snd kv))) mapping)"

text \<open>
  A Python string holds code points up to U+10FFFF. It may hold surrogates; two of them
  side by side, a high one and then a low one, are written by \<open>json.dumps\<close> as the very
  text that stands for one character beyond U+FFFF.
\<close>

definition code_points :: "str \<Rightarrow> bool" where
  "code_points s \<longleftrightarrow> (\<forall>c \<in> set s. c < 1114112)"

fun no_surrogate_pair :: "str \<Rightarrow> bool" where
  "no_surrogate_pair [] = True"
| "no_surrogate_pair [c] = True"
| "no_surrogate_pair (c # d # cs) =
     (\<not> (is_high_surrogate c \<and> is_low_surrogate d) \<and> no_surrogate_pair (d # cs))"

definition plain_strings :: "(str \<times> str) list \<Rightarrow> bool" where
  "plain_strings mapping \<longleftrightarrow>
     distinct (map fst mapping) \<and>
     (\<forall>kv \<in> set mapping.
        code_points (fst kv) \<and> no_surrogate_pair (fst kv) \<and>
        code_points (snd kv) \<and> no_surrogate_pair (snd kv))"

section \<open>Evaluating the decoder\<close>

text \<open>
  The definitions the simplifier unfolds to run \<open>json_loads\<close> on a given text, and the
  equations of the recursion for a counter given as a numeral.
\<close>

lemmas json_eval =
  json_loads_def lit_def skip_ws_def is_json_ws_def is_digit_def hex_digit_def decode_uXXXX_def scan_uXXXX_def
  is_high_surrogate_def is_low_surrogate_def join_surrogates_def backslash_escape_def
  cons_char_def match_fraction_def match_exponent_def match_number_def dict_of_pairs_def

lemmas parse_numeral =
  parse_value.simps(2) [of "pred_numeral k" for k, folded numeral_eq_Suc]
  parse_array.simps(2) [of "pred_numeral k" for k, folded numeral_eq_Suc]
  parse_object.simps(2) [of "pred_numeral k" for k, folded numeral_eq_Suc]

section \<open>Properties of fence stripping\<close>

lemma fence_eq: "fence = [96, 96, 96]"
  by (simp add: fence_def lit_def)

lemma fence_json_eq: "fence_json = [96, 96, 96, 106, 115, 111, 110]"
  by (simp add: fence_json_def lit_def)

lemma prefix_fence_json_fence: "prefix fence_json s \<Longrightarrow> prefix fence s"
  by (auto simp: fence_eq fence_json_eq prefix_def)

lemma re_sub_fences_no_fence: "\<not> sublist fence s \<Longrightarrow> re_sub_fences s = s"
proof (induction s)
  case Nil
  then show ?case by simp
next
  case (Cons c cs)
  from Cons.prems have np: "\<not> prefix fence (c # cs)" and ns: "\<not> sublist fence cs"
    by (simp_all add: sublist_Cons_right)
  from np have "\<not> prefix fence_json (c # cs)"
    using prefix_fence_json_fence by blast
  with np Cons.IH [OF ns] show ?case by simp
qed










section \<open>Properties of the Document Reader\<close>

lemma cell_or_empty_eq: "cell_or_empty cell = (case cell of None \<Rightarrow> [] | Some s \<Rightarrow> s)"
  by (simp add: cell_or_empty_def split: option.split)

lemma rows_loop_eq: "rows_loop full_text table = full_text @ concat (map row_line table)"
proof (induction table arbitrary: full_text)
  case Nil
  show ?case by simp
next
  case (Cons row rows)
  have "row_text row @ lit ''\<newline>'' = row_line row"
    by (simp add: row_text_def row_line_def cell_or_empty_eq [abs_def])
  with Cons show ?case by simp
qed

lemma tables_loop_eq:
  "tables_loop i t (full_text, all_tables) tables =
     (full_text @ table_sections (i + 1) t tables, all_tables @ tables)"
proof (induction tables arbitrary: t full_text all_tables)
  case Nil
  show ?case by (simp add: table_sections_def)
next
  case (Cons table tables)
  have "table_header i t = table_label (i + 1) (t + 1)"
    by (simp add: table_header_def table_label_def)
  then show ?case
    by (simp add: Cons rows_loop_eq table_sections_def table_section_def)
qed

lemma text_or_placeholder_eq: "text_or_placeholder text = section_body text"
  by (simp add: text_or_placeholder_def section_body_def split: option.split)

lemma pages_loop_eq:
  "pages_loop i (full_text, all_tables) pages =
     (full_text @ flattened_from i pages, all_tables @ concat (map extract_tables pages))"
proof (induction pages arbitrary: i full_text all_tables)
  case Nil
  show ?case by (simp add: flattened_from_def)
next
  case (Cons page pages)
  have h: "page_header i @ text_or_placeholder (extract_text page) = page_text_section (i + 1) page"
    by (simp add: page_header_def page_text_section_def page_label_def text_or_placeholder_eq)
  show ?case
  proof (cases "extract_tables page = []")
    case True
    with h show ?thesis
      by (simp add: Cons flattened_from_def table_sections_def Let_def)
  next
    case False
    with h show ?thesis
      by (simp add: Cons flattened_from_def tables_loop_eq Let_def)
  qed
qed

lemma flattened_from_append:
  "flattened_from i (xs @ ys) = flattened_from i xs @ flattened_from (i + length xs) ys"
  by (simp add: flattened_from_def enumerate_append_eq)

lemma map_enumerate_upt:
  "map (\<lambda>(i, x). f i x) (enumerate n xs) = map (\<lambda>i. f (n + i) (xs ! i)) [0..<length xs]"
  by (rule nth_equalityI) (simp_all add: nth_enumerate_eq)

lemma section_body_nonempty: "section_body t \<noteq> []"
  by (cases t) (auto simp: section_body_def lit_def)

text \<open>
  C5. For a PDF of N pages the flattened text is the concatenation, for the page indices
  0, ..., N - 1 in ascending order, of the page-text section labelled with the 1-based
  page number, followed by that page's table sections. The body of a page-text section is
  never empty: it is the placeholder \<^verbatim>\<open>[No text found]\<close> when the page yields no text
  (\<open>None\<close> or the empty string) and the page's text otherwise.
\<close>

theorem page_sections_in_order:
  assumes "pdfplumber_open fs pdf_path = Inr pages"
  shows "(\<exists>all_tables. extract_text_and_tables fs pdf_path =
           Inr (concat (map (\<lambda>i. page_text_section (i + 1) (pages ! i) @
                                  table_sections (i + 1) 0 (extract_tables (pages ! i)))
                          [0..<length pages]),
                all_tables)) \<and>
         (\<forall>n page. page_text_section n page = page_label n @ section_body (extract_text page) \<and>
            section_body (extract_text page) \<noteq> [] \<and>
            (extract_text page = None \<or> extract_text page = Some [] \<longrightarrow>
               section_body (extract_text page) = lit ''[No text found]'') \<and>
            (\<forall>s. extract_text page = Some s \<and> s \<noteq> [] \<longrightarrow> section_body (extract_text page) = s))"
proof -
  have "flattened_from 0 pages =
          concat (map (\<lambda>i. page_text_section (i + 1) (pages ! i) @
                              table_sections (i + 1) 0 (extract_tables (pages ! i)))
                    [0..<length pages])"
    unfolding flattened_from_def
    using map_enumerate_upt [of "\<lambda>j page. page_text_section (j + 1) page @ table_sections (j + 1) 0 (extract_tables page)" 0 pages]
    by simp
  with assms show ?thesis
    by (simp add: extract_text_and_tables_def pages_loop_eq page_text_section_def
        section_body_nonempty) (simp add: section_body_def)
qed

theorem page_sections_in_order_witness:
  "pdfplumber_open [(0, Readable example_pages)] 0 = Inr example_pages \<and>
   extract_text_and_tables [(0, Readable example_pages)] 0 =
     Inr (lit ''\<newline>--- Page 1 Text ---\<newline>Rating: Buy'' @
          lit ''\<newline>--- Page 2 Text ---\<newline>[No text found]'' @
          lit ''\<newline>--- Page 2 Table 1 ---\<newline>a |  | b\<newline>\<newline>'' @
          lit ''\<newline>--- Page 2 Table 2 ---\<newline>'' @
          lit ''\<newline>--- Page 3 Text ---\<newline>[No text found]'',
          [[[Some (lit ''a''), None, Some (lit ''b'')], [Some []]], []])"
proof -
  have h: "pdfplumber_open [(0, Readable example_pages)] 0 = Inr example_pages"
    by (simp add: pdfplumber_open_def)
  have e: "extract_text_and_tables [(0, Readable example_pages)] 0 =
     Inr (lit ''\<newline>--- Page 1 Text ---\<newline>Rating: Buy'' @
          lit ''\<newline>--- Page 2 Text ---\<newline>[No text found]'' @
          lit ''\<newline>--- Page 2 Table 1 ---\<newline>a |  | b\<newline>\<newline>'' @
          lit ''\<newline>--- Page 2 Table 2 ---\<newline>'' @
          lit ''\<newline>--- Page 3 Text ---\<newline>[No text found]'',
          [[[Some (lit ''a''), None, Some (lit ''b'')], [Some []]], []])"
    by code_simp
  from page_sections_in_order [OF h] h e show ?thesis by simp
qed

text \<open>
  C6. For a page with K detected tables, at any place of the document, the flattened text
  continues after that page's text section with K table sections numbered 1, ..., K, and
  goes on with the later pages. A table section is its header and one line per row: the
  cells joined by \<^verbatim>\<open> | \<close>, a missing or empty cell giving the empty string.
\<close>

theorem table_sections_after_page_text:
  assumes "pdfplumber_open fs pdf_path = Inr (before @ page # after)"
  shows "extract_text_and_tables fs pdf_path =
           Inr (flattened_from 0 before @
                page_text_section (length before + 1) page @
                concat (map (\<lambda>k. table_section (length before + 1) (k + 1) (extract_tables page ! k))
                          [0..<length (extract_tables page)]) @
                flattened_from (length before + 1) after,
                concat (map extract_tables (before @ page # after))) \<and>
         (\<forall>n k table. table_section n k table = table_label n k @ concat (map row_line table))"
proof -
  have "table_sections (length before + 1) 0 (extract_tables page) =
          concat (map (\<lambda>k. table_section (length before + 1) (k + 1) (extract_tables page ! k))
                    [0..<length (extract_tables page)])"
    unfolding table_sections_def
    using map_enumerate_upt [of "\<lambda>k table. table_section (length before + 1) (k + 1) table" 0 "extract_tables page"]
    by simp
  moreover have "flattened_from 0 (before @ page # after) =
          flattened_from 0 before @ page_text_section (length before + 1) page @
          table_sections (length before + 1) 0 (extract_tables page) @
          flattened_from (length before + 1) after"
    by (simp add: flattened_from_append) (simp add: flattened_from_def)
  ultimately show ?thesis
    using assms by (simp add: extract_text_and_tables_def pages_loop_eq table_section_def)
qed

theorem table_sections_after_page_text_witness:
  "pdfplumber_open
     [(0, Readable ([\<lparr>extract_text = Some (lit ''Q3''), extract_tables = []\<rparr>] @
                    \<lparr>extract_text = Some (lit ''P''),
                     extract_tables = [[[Some (lit ''Revenue''), None, Some (lit ''12'')]],
                                       [[Some [], Some (lit ''x'')], []]]\<rparr> #
                    [\<lparr>extract_text = None, extract_tables = []\<rparr>]))] 0 =
     Inr ([\<lparr>extract_text = Some (lit ''Q3''), extract_tables = []\<rparr>] @
          \<lparr>extract_text = Some (lit ''P''),
           extract_tables = [[[Some (lit ''Revenue''), None, Some (lit ''12'')]],
                             [[Some [], Some (lit ''x'')], []]]\<rparr> #
          [\<lparr>extract_text = None, extract_tables = []\<rparr>]) \<and>
   extract_text_and_tables
     [(0, Readable ([\<lparr>extract_text = Some (lit ''Q3''), extract_tables = []\<rparr>] @
                    \<lparr>extract_text = Some (lit ''P''),
                     extract_tables = [[[Some (lit ''Revenue''), None, Some (lit ''12'')]],
                                       [[Some [], Some (lit ''x'')], []]]\<rparr> #
                    [\<lparr>extract_text = None, extract_tables = []\<rparr>]))] 0 =
     Inr (lit ''\<newline>--- Page 1 Text ---\<newline>Q3'' @
          lit ''\<newline>--- Page 2 Text ---\<newline>P'' @
          lit ''\<newline>--- Page 2 Table 1 ---\<newline>Revenue |  | 12\<newline>'' @
          lit ''\<newline>--- Page 2 Table 2 ---\<newline> | x\<newline>\<newline>'' @
          lit ''\<newline>--- Page 3 Text ---\<newline>[No text found]'',
          [[[Some (lit ''Revenue''), None, Some (lit ''12'')]], [[Some [], Some (lit ''x'')], []]])"
proof -
  let ?before = "[\<lparr>extract_text = Some (lit ''Q3''), extract_tables = []\<rparr>]"
  let ?page = "\<lparr>extract_text = Some (lit ''P''),
                extract_tables = [[[Some (lit ''Revenue''), None, Some (lit ''12'')]],
                                  [[Some [], Some (lit ''x'')], []]]\<rparr>"
  let ?after = "[\<lparr>extract_text = None, extract_tables = []\<rparr>]"
  have h: "pdfplumber_open [(0, Readable (?before @ ?page # ?after))] 0 =
             Inr (?before @ ?page # ?after)"
    by (simp add: pdfplumber_open_def)
  have e: "extract_text_and_tables [(0, Readable (?before @ ?page # ?after))] 0 =
     Inr (lit ''\<newline>--- Page 1 Text ---\<newline>Q3'' @
          lit ''\<newline>--- Page 2 Text ---\<newline>P'' @
          lit ''\<newline>--- Page 2 Table 1 ---\<newline>Revenue |  | 12\<newline>'' @
          lit ''\<newline>--- Page 2 Table 2 ---\<newline> | x\<newline>\<newline>'' @
          lit ''\<newline>--- Page 3 Text ---\<newline>[No text found]'',
          [[[Some (lit ''Revenue''), None, Some (lit ''12'')]], [[Some [], Some (lit ''x'')], []]])"
    by code_simp
  from table_sections_after_page_text [OF h] h e show ?thesis by simp
qed

section \<open>Properties of the Prompt Builder\<close>

lemma schema_decodes:
  "0 < recursion_depth i \<Longrightarrow>
   json_loads i (unlines template_schema) = Inr (PyDict (empty_defaults declared_fields))"
  by (simp add: template_schema_def unlines_def declared_fields_def empty_defaults_def json_eval
      parse_numeral)

lemma template_schema_lines:
  \<open>template_schema =
     [lit ''{''] @
     map (\<lambda>f. lit ''  "'' @ f @ lit ''": "",'') (butlast declared_fields) @
     [lit ''  "'' @ last declared_fields @ lit ''": ""'', lit ''}'']\<close>
  by (simp add: template_schema_def declared_fields_def lit_def)

lemma sublist_unlines: "l \<in> set ls \<Longrightarrow> sublist l (unlines ls)"
proof (induction ls)
  case Nil
  then show ?case by simp
next
  case (Cons a ls)
  show ?case
  proof (cases "l = a")
    case True
    then show ?thesis
      by (simp add: unlines_def sublist_append_leftI)
  next
    case False
    with Cons have "sublist l (unlines ls)" by simp
    then obtain p q where "unlines ls = p @ l @ q"
      by (auto simp: sublist_def)
    then have "unlines (a # ls) = (a @ [10] @ p) @ l @ q"
      by (simp add: unlines_def)
    then show ?thesis
      unfolding sublist_def by blast
  qed
qed

lemma field_in_schema_line:
  assumes "f \<in> set declared_fields"
  shows "\<exists>l \<in> set template_schema. sublist f l"
proof -
  have ne: "declared_fields \<noteq> []"
    by (simp add: declared_fields_def)
  have "f \<in> set (butlast declared_fields) \<or> f = last declared_fields"
    using assms append_butlast_last_id [OF ne]
    by (metis Un_iff empty_iff empty_set set_ConsD set_append)
  then show ?thesis
  proof
    assume "f \<in> set (butlast declared_fields)"
    then have \<open>lit ''  "'' @ f @ lit ''": "",'' \<in> set template_schema\<close>
      by (subst template_schema_lines) simp
    moreover have \<open>sublist f (lit ''  "'' @ f @ lit ''": "",'')\<close>
      by (simp add: sublist_append_leftI sublist_append_rightI)
    ultimately show ?thesis by blast
  next
    assume "f = last declared_fields"
    then have \<open>lit ''  "'' @ f @ lit ''": ""'' \<in> set template_schema\<close>
      by (subst template_schema_lines) simp
    moreover have \<open>sublist f (lit ''  "'' @ f @ lit ''": ""'')\<close>
      by (simp add: sublist_append_leftI sublist_append_rightI)
    ultimately show ?thesis by blast
  qed
qed

lemma unlines_append: "unlines (xs @ ys) = unlines xs @ unlines ys"
  by (simp add: unlines_def)

text \<open>
  C2 (amended). The JSON object of the prompt template declares exactly 26 named fields,
  all different, each with the empty string as its value: decoding the object's text
  gives exactly these fields (in any interpreter that allows one nested call). For every
  input text the output of \<open>create_prompt\<close> contains the input text verbatim, the text of
  that object, and each of the 26 field names.
\<close>

theorem prompt_contains_text_and_fields:
  "sublist text_content (create_prompt text_content) \<and>
   sublist (unlines template_schema) (create_prompt text_content) \<and>
   (\<forall>i. 0 < recursion_depth i \<longrightarrow>
      json_loads i (unlines template_schema) = Inr (PyDict (empty_defaults declared_fields))) \<and>
   length declared_fields = 26 \<and> distinct declared_fields \<and>
   (\<forall>f \<in> set declared_fields. sublist f (create_prompt text_content))"
proof (intro conjI ballI allI impI)
  show "sublist text_content (create_prompt text_content)"
    by (simp add: create_prompt_def sublist_append_leftI sublist_append_rightI)
  show schema: "sublist (unlines template_schema) (create_prompt text_content)"
    unfolding create_prompt_def unlines_append sublist_def by auto
  show "json_loads i (unlines template_schema) = Inr (PyDict (empty_defaults declared_fields))"
    if "0 < recursion_depth i" for i
    using that by (rule schema_decodes)
  show "length declared_fields = 26" and "distinct declared_fields"
    by (simp_all add: declared_fields_def lit_def)
  show "sublist f (create_prompt text_content)" if "f \<in> set declared_fields" for f
  proof -
    from field_in_schema_line [OF that] obtain l where "l \<in> set template_schema" "sublist f l"
      by blast
    then have "sublist f (unlines template_schema)"
      using sublist_unlines sublist_order.order_trans by blast
    with schema show ?thesis
      using sublist_order.order_trans by blast
  qed
qed

theorem prompt_contains_text_and_fields_witness:
  "lit ''pat3QFY24qoq'' \<in> set declared_fields \<and>
   0 < recursion_depth (interpreter_with 1000) \<and>
   json_loads (interpreter_with 1000) (unlines template_schema) =
     Inr (PyDict (empty_defaults declared_fields)) \<and>
   sublist (lit ''pat3QFY24qoq'') (create_prompt (lit ''Rating: Buy, CMP: 100, TP: 150'')) \<and>
   sublist (lit ''Rating: Buy, CMP: 100, TP: 150'')
     (create_prompt (lit ''Rating: Buy, CMP: 100, TP: 150''))"
proof -
  have h: "lit ''pat3QFY24qoq'' \<in> set declared_fields"
    by (simp add: declared_fields_def)
  have d: "0 < recursion_depth (interpreter_with 1000)"
    by (simp add: interpreter_with_def)
  from prompt_contains_text_and_fields [of "lit ''Rating: Buy, CMP: 100, TP: 150''"] h d
  show ?thesis by blast
qed

text \<open>
  The claim as stated fails on the number of fields: the object of the template has 26
  members, not 23.
\<close>

theorem schema_field_count_counterexample:
  "json_loads (interpreter_with 1000) (unlines template_schema) =
     Inr (PyDict (empty_defaults declared_fields)) \<and>
   length (empty_defaults declared_fields) = 26 \<and>
   length (empty_defaults declared_fields) \<noteq> 23"
  using schema_decodes [of "interpreter_with 1000"]
  by (simp add: empty_defaults_def declared_fields_def interpreter_with_def)

section \<open>Properties of the upload loop\<close>

lemma unused_name_fold:
  "a \<le> fold (\<lambda>(p, _) n. max (Suc p) n) fs a \<and>
   (\<forall>p \<in> fst ` set fs. p < fold (\<lambda>(p, _) n. max (Suc p) n) fs a)"
proof (induction fs arbitrary: a)
  case Nil
  show ?case by simp
next
  case (Cons x fs)
  obtain q d where x: "x = (q, d)" by (cases x)
  from Cons [of "max (Suc q) a"] x show ?case by auto
qed

lemma unused_name_fresh: "\<not> fs_exists fs (unused_name fs)"
  using unused_name_fold [of 0 fs] by (auto simp: fs_exists_def unused_name_def)

lemma map_of_unused: "map_of (fs @ [(unused_name fs, d)]) (unused_name fs) = Some d"
proof -
  have "map_of fs (unused_name fs) = None"
    using unused_name_fresh [of fs] by (simp add: fs_exists_def map_of_eq_None_iff)
  then show ?thesis
    by (simp add: map_add_def)
qed

lemma extract_tmp_readable:
  "extract_text_and_tables (fs @ [(unused_name fs, Readable pages)]) (unused_name fs) =
     Inr (flattened_from 0 pages, concat (map extract_tables pages))"
  by (simp add: extract_text_and_tables_def pdfplumber_open_def map_of_unused pages_loop_eq
      del: map_of_append)

lemma extract_tmp_unreadable:
  "extract_text_and_tables (fs @ [(unused_name fs, Unreadable e)]) (unused_name fs) = Inl e"
  by (simp add: extract_text_and_tables_def pdfplumber_open_def map_of_unused del: map_of_append)

lemma upload_loop_readable:
  "\<forall>f \<in> set files. is_readable f \<Longrightarrow>
   upload_loop fs (all_text, all_tables) files =
     (tmp_files fs files, Inr (all_text @ combined_text files, all_tables @ combined_tables files))"
proof (induction files arbitrary: fs all_text all_tables)
  case Nil
  show ?case by (simp add: combined_text_def combined_tables_def)
next
  case (Cons f files)
  then obtain pages where f: "f = Readable pages" by (cases f) auto
  from Cons.prems have "\<forall>f \<in> set files. is_readable f" by simp
  note ih = Cons.IH [OF this]
  show ?case
    by (simp add: f NamedTemporaryFile_write_def Let_def extract_tmp_readable ih
        combined_text_def combined_tables_def)
qed

lemma upload_loop_append:
  "\<forall>f \<in> set good. is_readable f \<Longrightarrow>
   upload_loop fs (all_text, all_tables) (good @ rest) =
     upload_loop (tmp_files fs good) (all_text @ combined_text good, all_tables @ combined_tables good) rest"
proof (induction good arbitrary: fs all_text all_tables)
  case Nil
  show ?case by (simp add: combined_text_def combined_tables_def)
next
  case (Cons f good)
  then obtain pages where f: "f = Readable pages" by (cases f) auto
  from Cons.prems have "\<forall>f \<in> set good. is_readable f" by simp
  note ih = Cons.IH [OF this]
  show ?case
    by (simp add: f NamedTemporaryFile_write_def Let_def extract_tmp_readable ih
        combined_text_def combined_tables_def)
qed

lemma upload_loop_unreadable:
  "upload_loop fs (all_text, all_tables) (Unreadable e # rest) =
     (tmp_files fs [Unreadable e], Inl e)"
  by (simp add: NamedTemporaryFile_write_def Let_def extract_tmp_unreadable)

lemma tmp_files_append: "tmp_files fs (xs @ ys) = tmp_files (tmp_files fs xs) ys"
  by (induction xs arbitrary: fs) simp_all

lemma tmp_files_prefix: "prefix fs (tmp_files fs ds)"
proof (induction ds arbitrary: fs)
  case Nil
  show ?case by simp
next
  case (Cons d ds)
  have "prefix fs (fs @ [(unused_name fs, d)])" by simp
  with Cons [of "fs @ [(unused_name fs, d)]"] show ?case
    using prefix_order.order_trans by fastforce
qed

lemma tmp_files_contents: "map snd (tmp_files fs ds) = map snd fs @ ds"
  by (induction ds arbitrary: fs) simp_all

lemma tmp_files_distinct: "distinct (map fst fs) \<Longrightarrow> distinct (map fst (tmp_files fs ds))"
proof (induction ds arbitrary: fs)
  case Nil
  then show ?case by simp
next
  case (Cons d ds)
  have "distinct (map fst (fs @ [(unused_name fs, d)]))"
    using Cons.prems unused_name_fresh [of fs] by (simp add: fs_exists_def)
  from Cons.IH [OF this] show ?case by simp
qed

lemma upload_loop_fs:
  "fst (upload_loop fs (all_text, all_tables) files) = tmp_files fs (files_written files)"
proof (cases "\<forall>f \<in> set files. is_readable f")
  case True
  have tw: "takeWhile is_readable files = files"
    using True by (simp add: takeWhile_eq_all_conv)
  have dw: "dropWhile is_readable files = []"
    using True by simp
  have "files_written files = files"
    unfolding files_written_def tw dw by simp
  with True show ?thesis
    by (simp add: upload_loop_readable)
next
  case False
  then have ne: "dropWhile is_readable files \<noteq> []"
    by simp
  then obtain x rest where d: "dropWhile is_readable files = x # rest"
    by (cases "dropWhile is_readable files") auto
  then have "\<not> is_readable x"
    using hd_dropWhile [OF ne] by simp
  then obtain e where x: "x = Unreadable e"
    by (cases x) auto
  let ?good = "takeWhile is_readable files"
  have files: "files = ?good @ Unreadable e # rest"
    using takeWhile_dropWhile_id [of is_readable files] d x by simp
  have good: "\<forall>f \<in> set ?good. is_readable f"
    by (auto dest: set_takeWhileD)
  have "upload_loop fs (all_text, all_tables) (?good @ Unreadable e # rest) =
          (tmp_files fs (?good @ [Unreadable e]), Inl e)"
    by (simp add: upload_loop_append [OF good] upload_loop_unreadable tmp_files_append
        del: upload_loop.simps)
  moreover have "files_written files = ?good @ [Unreadable e]"
    by (simp add: files_written_def d x)
  ultimately show ?thesis
    using files by simp
qed

text \<open>
  C3 (amended). When the PDF library cannot open or parse an uploaded file, nothing
  catches the exception: it leaves the upload loop and ends the processing run at that
  file. The run yields the exception and no combined text, so the contributions of the
  files read before are lost with it, the files after it are not even written to a
  temporary file, and no prompt is built.
\<close>

theorem read_failure_ends_the_run:
  assumes "\<forall>f \<in> set good. is_readable f"
  shows "upload_loop fs (all_text, all_tables) (good @ Unreadable e # rest) =
           (tmp_files fs (good @ [Unreadable e]), Inl e) \<and>
         (API_KEY \<noteq> [] \<longrightarrow>
            process_pdfs fs (good @ Unreadable e # rest) API_KEY =
              (tmp_files fs (good @ [Unreadable e]), Some (Inl e)))"
proof -
  have "upload_loop fs (all_text, all_tables) (good @ Unreadable e # rest) =
          (tmp_files fs (good @ [Unreadable e]), Inl e)" for all_text all_tables
    by (simp add: upload_loop_append [OF assms] upload_loop_unreadable tmp_files_append
        del: upload_loop.simps)
  then show ?thesis
    by (simp add: process_pdfs_def)
qed

theorem read_failure_ends_the_run_witness:
  "is_readable (example_uploads ! 0) \<and>
   upload_loop [] ([], []) example_uploads =
     ([(0, example_uploads ! 0), (1, example_uploads ! 1)],
      Inl (PdfReadError (lit ''No /Root object! - Is this really a PDF?''))) \<and>
   process_pdfs [] example_uploads (lit ''key'') =
     ([(0, example_uploads ! 0), (1, example_uploads ! 1)],
      Some (Inl (PdfReadError (lit ''No /Root object! - Is this really a PDF?''))))"
proof -
  let ?e = "PdfReadError (lit ''No /Root object! - Is this really a PDF?'')"
  have h: "\<forall>f \<in> set [example_uploads ! 0]. is_readable f"
    by (simp add: example_uploads_def)
  have u: "[example_uploads ! 0] @ Unreadable ?e # [example_uploads ! 2] = example_uploads"
    by (simp add: example_uploads_def)
  have t: "tmp_files [] ([example_uploads ! 0] @ [Unreadable ?e]) =
           [(0, example_uploads ! 0), (1, example_uploads ! 1)]"
    by (simp add: example_uploads_def unused_name_def)
  have k: "lit ''key'' \<noteq> []"
    by (simp add: lit_def)
  have "upload_loop [] ([], []) ([example_uploads ! 0] @ Unreadable ?e # [example_uploads ! 2]) =
          (tmp_files [] ([example_uploads ! 0] @ [Unreadable ?e]), Inl ?e) \<and>
        (lit ''key'' \<noteq> [] \<longrightarrow>
           process_pdfs [] ([example_uploads ! 0] @ Unreadable ?e # [example_uploads ! 2]) (lit ''key'') =
             (tmp_files [] ([example_uploads ! 0] @ [Unreadable ?e]), Some (Inl ?e)))"
    by (rule read_failure_ends_the_run [OF h])
  then have "upload_loop [] ([], []) example_uploads =
          ([(0, example_uploads ! 0), (1, example_uploads ! 1)], Inl ?e) \<and>
        (lit ''key'' \<noteq> [] \<longrightarrow>
           process_pdfs [] example_uploads (lit ''key'') =
             ([(0, example_uploads ! 0), (1, example_uploads ! 1)], Some (Inl ?e)))"
    unfolding u t .
  with k h show ?thesis by simp
qed

text \<open>
  The claim as stated fails: with an unreadable file between two readable ones the loop
  returns the exception alone, where the two readable files on their own give a combined
  text.
\<close>

theorem read_failure_counterexample:
  "upload_loop [] ([], []) example_uploads =
     ([(0, example_uploads ! 0), (1, example_uploads ! 1)],
      Inl (PdfReadError (lit ''No /Root object! - Is this really a PDF?''))) \<and>
   upload_loop [] ([], []) [example_uploads ! 0, example_uploads ! 2] =
     ([(0, example_uploads ! 0), (1, example_uploads ! 2)],
      Inr (lit ''\<newline>--- Page 1 Text ---\<newline>A\<newline>\<newline>\<newline>--- Page 1 Text ---\<newline>B\<newline>\<newline>'', []))"
  by code_simp

text \<open>
  C4 (amended). Each temporary file is created under an unused name, written and closed
  before the Document Reader is called (\<open>delete=False\<close>), and the program never removes
  it: after the loop the file system is the initial one, unchanged, followed by one
  temporary file for every upload the loop got to, holding that upload's bytes, whether
  its read succeeded or failed.
\<close>

theorem temp_files_persist:
  "fst (upload_loop fs (all_text, all_tables) files) = tmp_files fs (files_written files) \<and>
   prefix fs (tmp_files fs (files_written files)) \<and>
   map snd (tmp_files fs (files_written files)) = map snd fs @ files_written files \<and>
   (distinct (map fst fs) \<longrightarrow> distinct (map fst (tmp_files fs (files_written files)))) \<and>
   (\<forall>file. \<not> fs_exists fs (snd (NamedTemporaryFile_write False fs file)) \<and>
      fs_exists (fst (NamedTemporaryFile_write False fs file))
        (snd (NamedTemporaryFile_write False fs file)))"
  by (simp add: upload_loop_fs tmp_files_prefix tmp_files_contents tmp_files_distinct
      NamedTemporaryFile_write_def Let_def unused_name_fresh) (simp add: fs_exists_def)

theorem temp_files_persist_witness:
  "fst (upload_loop [] ([], []) example_uploads) =
     [(0, example_uploads ! 0), (1, example_uploads ! 1)] \<and>
   files_written example_uploads = [example_uploads ! 0, example_uploads ! 1] \<and>
   distinct (map fst ([] :: filesystem)) \<and>
   distinct (map fst (tmp_files [] (files_written example_uploads)))"
proof -
  have w: "files_written example_uploads = [example_uploads ! 0, example_uploads ! 1]"
    by (simp add: files_written_def example_uploads_def)
  have t: "tmp_files [] [example_uploads ! 0, example_uploads ! 1] =
             [(0, example_uploads ! 0), (1, example_uploads ! 1)]"
    by (simp add: unused_name_def)
  from temp_files_persist [of "[]" "[]" "[]" example_uploads] w t
  show ?thesis by (simp add: unused_name_def)
qed

text \<open>
  The claim as stated fails: the temporary file still exists after the Document Reader
  call and after the loop, on success and on failure.
\<close>

theorem temp_file_left_behind_counterexample:
  "NamedTemporaryFile_write False [] (Readable []) = ([(0, Readable [])], 0) \<and>
   extract_text_and_tables [(0, Readable [])] 0 = Inr ([], []) \<and>
   fs_exists (fst (upload_loop [] ([], []) [Readable []])) 0 \<and>
   fs_exists (fst (upload_loop [] ([], []) [Unreadable (PdfReadError [])])) 0"
  by code_simp

section \<open>Properties of the decoder\<close>

text \<open>
  Every successful step of the decoder reads at least one character, and the counter
  \<open>json_loads\<close> starts with is never used up: the decoder ends with a value or with an
  error of Python's.
\<close>

lemma skip_ws_length: "length (skip_ws s) \<le> length s"
  by (simp add: skip_ws_def length_dropWhile_le)

lemma skip_ws_Cons_length: "skip_ws s = d # ds \<Longrightarrow> length ds < length s"
  using skip_ws_length [of s] by simp

lemma cons_char_Inr:
  "cons_char c x = Inr (v, r) \<longleftrightarrow> (\<exists>v'. x = Inr (v', r) \<and> v = c # v')"
  by (auto simp: cons_char_def split: sum.splits)

lemma scanstring_length: "scanstring s = Inr (v, r) \<Longrightarrow> length r < length s"
proof (induction s arbitrary: v rule: length_induct)
  case (1 s)
  show ?case
  proof (cases s)
    case Nil
    with "1.prems" show ?thesis by simp
  next
    case (Cons c cs)
    have step: "length r < length cs"
      if "scanstring t = Inr (v', r)" "length t \<le> length cs" for t v'
    proof -
      from that(2) Cons have "length t < length s" by simp
      with 1 that(1) have "length r < length t" by blast
      with that(2) show ?thesis by simp
    qed
    from "1.prems" Cons consider
        (quote) "r = cs"
      | (tail) t v' where "scanstring t = Inr (v', r)" "length t \<le> length cs"
      by (auto simp: cons_char_Inr split: if_splits list.splits option.splits
          dest!: decode_uXXXX_length scan_uXXXX_length)
    then show ?thesis
    proof cases
      case quote
      with Cons show ?thesis by simp
    next
      case tail
      from step [OF tail] Cons show ?thesis by simp
    qed
  qed
qed

lemma match_fraction_length: "match_fraction s = (f, r) \<Longrightarrow> length r \<le> length s"
  using length_dropWhile_le [of is_digit "tl s"]
  by (auto simp: match_fraction_def split: list.splits if_splits)

lemma match_exponent_length: "match_exponent s = (x, r) \<Longrightarrow> length r \<le> length s"
proof -
  have "length (dropWhile is_digit (drop k (tl s))) \<le> length s" for k
    using length_dropWhile_le [of is_digit "drop k (tl s)"] by simp
  from this [of 0] this [of 1] show "match_exponent s = (x, r) \<Longrightarrow> length r \<le> length s"
    by (auto simp: match_exponent_def Let_def split: list.splits if_splits)
qed

lemma drop_Cons_length:
  assumes "drop k s = d # ds"
  shows "length ds < length s"
proof -
  have "length (drop k s) = Suc (length ds)"
    by (simp add: assms)
  then show ?thesis by simp
qed

lemma skip_ws_less: "n < length (skip_ws s) \<Longrightarrow> n < length s"
  using skip_ws_length [of s] by simp

lemma match_tail_length:
  "(case match_fraction t of
      (frac, s3) \<Rightarrow>
        (case match_exponent s3 of
           (ex, s4) \<Rightarrow>
             if frac = [] \<and> ex = [] then (if C then Inl E else Inr (A, s4))
             else Inr (B frac ex, s4))) =
     Inr (v, r) \<Longrightarrow> length r \<le> length t"
  by (auto split: prod.splits if_splits dest!: match_fraction_length match_exponent_length)

lemma match_number_length: "match_number m s = Inr (v, r) \<Longrightarrow> length r < length s"
  by (auto simp: match_number_def Let_def split: list.splits if_splits
      dest!: match_tail_length drop_Cons_length)

lemma prefix_drop_length: "prefix p s \<Longrightarrow> p \<noteq> [] \<Longrightarrow> length (drop (length p) s) < length s"
  by (auto simp: prefix_def)

lemma parse_length:
  "(parse_value n i s = Inr (v, r) \<longrightarrow> length r < length s) \<and>
   (parse_array n i vs s = Inr (v, r) \<longrightarrow> length r < length s) \<and>
   (parse_object n i ps s = Inr (v, r) \<longrightarrow> length r < length s)"
proof (induction n arbitrary: i s v r vs ps)
  case 0
  show ?case by simp
next
  case (Suc n)
  have ihv: "length r' < length s'" if "parse_value n i s' = Inr (v', r')" for i s' v' r'
    using Suc that by blast
  have iha: "length r' < length s'" if "parse_array n i vs' s' = Inr (v', r')" for i s' v' r' vs'
    using Suc that by blast
  have iho: "length r' < length s'" if "parse_object n i ps' s' = Inr (v', r')" for i s' v' r' ps'
    using Suc that by blast
  have lits: "length (drop 4 s) < length s" if "prefix (lit ''null'') s \<or> prefix (lit ''true'') s"
    using that by (auto simp: prefix_def lit_def)
  have lits2: "length (drop 5 s) < length s" if "prefix (lit ''false'') s"
    using that by (auto simp: prefix_def lit_def)
  have lits3: "length (drop 3 s) < length s" if "prefix (lit ''NaN'') s"
    using that by (auto simp: prefix_def lit_def)
  have lits4: "length (drop 8 s) < length s" if "prefix (lit ''Infinity'') s"
    using that by (auto simp: prefix_def lit_def)
  have lits5: "length (drop 9 s) < length s" if "prefix (lit ''-Infinity'') s"
    using that by (auto simp: prefix_def lit_def)
  have "length r < length s" if "parse_value (Suc n) i s = Inr (v, r)"
  proof (cases s)
    case Nil
    with that show ?thesis by simp
  next
    case (Cons c cs)
    consider (str) "c = 34" | (obj) "c = 123" | (arr) "c = 91" | (other) "c \<noteq> 34" "c \<noteq> 123" "c \<noteq> 91"
      by blast
    then show ?thesis
    proof cases
      case str
      with that Cons show ?thesis
        by (auto split: sum.splits dest: scanstring_length)
    next
      case obj
      with that Cons show ?thesis
        by (auto split: list.splits if_splits dest!: skip_ws_Cons_length iho)
    next
      case arr
      with that Cons show ?thesis
        by (auto split: list.splits if_splits dest!: skip_ws_Cons_length iha)
    next
      case other
      with that Cons lits lits2 lits3 lits4 lits5 show ?thesis
        by (auto split: if_splits dest: match_number_length)
    qed
  qed
  moreover have "length r < length s" if "parse_array (Suc n) i vs s = Inr (v, r)"
    using that
    by (auto split: sum.splits list.splits if_splits prod.splits
        dest!: ihv iha skip_ws_Cons_length skip_ws_less)
  moreover have "length r < length s" if "parse_object (Suc n) i ps s = Inr (v, r)"
    using that
    by (auto split: sum.splits list.splits if_splits prod.splits
        dest!: ihv iho skip_ws_Cons_length scanstring_length skip_ws_less)
  ultimately show ?case by blast
qed

lemma cons_char_Inl: "cons_char c x = Inl e \<longleftrightarrow> x = Inl e"
  by (auto simp: cons_char_def split: sum.splits)

lemma scanstring_fuel: "scanstring s \<noteq> Inl Out_of_fuel"
  by (induction s rule: scanstring.induct)
    (auto simp: cons_char_Inl split: list.splits option.splits)

lemma match_number_fuel: "match_number m s \<noteq> Inl Out_of_fuel"
  by (auto simp: match_number_def Let_def split: list.splits prod.splits)

lemma parse_value_length: "parse_value n i s = Inr (v, r) \<Longrightarrow> length r < length s"
  using parse_length by blast

lemma parse_fuel:
  "(parse_value n i s = Inl Out_of_fuel \<longrightarrow> n \<le> 2 * length s) \<and>
   (parse_array n i vs s = Inl Out_of_fuel \<longrightarrow> n \<le> 2 * length s + 1) \<and>
   (parse_object n i ps s = Inl Out_of_fuel \<longrightarrow> n \<le> 2 * length s + 1)"
proof (induction n arbitrary: i s vs ps)
  case 0
  show ?case by simp
next
  case (Suc n)
  have ihv: "n \<le> 2 * length s'" if "parse_value n i s' = Inl Out_of_fuel" for i s'
    using Suc that by blast
  have ihv': "n \<le> 2 * length s'" if "parse_value n i (skip_ws s') = Inl Out_of_fuel" for i s'
    using ihv [OF that] skip_ws_length [of s'] by simp
  have iha: "n \<le> 2 * length s' + 1" if "parse_array n i vs' s' = Inl Out_of_fuel" for i s' vs'
    using Suc that by blast
  have iha': "n \<le> 2 * length s' + 1" if "parse_array n i vs' (skip_ws s') = Inl Out_of_fuel" for i s' vs'
    using iha [OF that] skip_ws_length [of s'] by simp
  have iho: "n \<le> 2 * length s' + 1" if "parse_object n i ps' s' = Inl Out_of_fuel" for i s' ps'
    using Suc that by blast
  have iho': "n \<le> 2 * length s' + 1" if "parse_object n i ps' (skip_ws s') = Inl Out_of_fuel" for i s' ps'
    using iho [OF that] skip_ws_length [of s'] by simp
  have "Suc n \<le> 2 * length s" if "parse_value (Suc n) i s = Inl Out_of_fuel"
  proof (cases s)
    case Nil
    with that show ?thesis by simp
  next
    case (Cons c cs)
    consider (str) "c = 34" | (obj) "c = 123" | (arr) "c = 91" | (other) "c \<noteq> 34" "c \<noteq> 123" "c \<noteq> 91"
      by blast
    then show ?thesis
    proof cases
      case str
      with that Cons show ?thesis
        by (auto simp: scanstring_fuel split: sum.splits)
    next
      case obj
      with that Cons have "skip_ws cs \<noteq> []"
        and "parse_object n (i\<lparr>recursion_depth := recursion_depth i - 1\<rparr>) [] (skip_ws cs) =
             Inl Out_of_fuel"
        by (auto split: list.splits if_splits)
      from iho' [OF this(2)] Cons show ?thesis by simp
    next
      case arr
      with that Cons
      have "parse_array n (i\<lparr>recursion_depth := recursion_depth i - 1\<rparr>) [] (skip_ws cs) =
            Inl Out_of_fuel"
        by (auto split: list.splits if_splits)
      from iha' [OF this] Cons show ?thesis by simp
    next
      case other
      with that Cons show ?thesis
        by (auto simp: match_number_fuel split: if_splits)
    qed
  qed
  moreover have "Suc n \<le> 2 * length s + 1" if "parse_array (Suc n) i vs s = Inl Out_of_fuel"
  proof (cases "parse_value n i s")
    case (Inl e)
    with that have "parse_value n i s = Inl Out_of_fuel" by simp
    from ihv [OF this] show ?thesis by simp
  next
    case (Inr p)
    obtain val rest where p: "p = (val, rest)" by (cases p)
    from Inr p have len: "length rest < length s"
      by (auto dest: parse_value_length)
    show ?thesis
    proof (cases "skip_ws rest")
      case Nil
      with that Inr p show ?thesis by simp
    next
      case (Cons d ds)
      with that Inr p have "parse_array n i (vs @ [val]) (skip_ws ds) = Inl Out_of_fuel"
        by (simp split: if_splits)
      from iha' [OF this] skip_ws_Cons_length [OF Cons] len show ?thesis by simp
    qed
  qed
  moreover have "Suc n \<le> 2 * length s + 1" if "parse_object (Suc n) i ps s = Inl Out_of_fuel"
  proof (cases s)
    case Nil
    with that show ?thesis by simp
  next
    case s: (Cons q qs)
    with that have q: "q = 34" by (simp split: if_splits)
    show ?thesis
    proof (cases "scanstring qs")
      case (Inl e)
      with that s q scanstring_fuel [of qs] show ?thesis by simp
    next
      case (Inr p)
      obtain key rest where p: "p = (key, rest)" by (cases p)
      from Inr p have len1: "length rest < length qs"
        by (auto dest: scanstring_length)
      show ?thesis
      proof (cases "skip_ws rest")
        case Nil
        with that s q Inr p show ?thesis by simp
      next
        case c: (Cons c cs)
        with that s q Inr p have c58: "c = 58" by (simp split: if_splits)
        have len2: "length cs < length rest"
          by (rule skip_ws_Cons_length [OF c])
        show ?thesis
        proof (cases "parse_value n i (skip_ws cs)")
          case (Inl e)
          with that s q Inr p c c58 have "parse_value n i (skip_ws cs) = Inl Out_of_fuel" by simp
          from ihv' [OF this] len1 len2 s show ?thesis by simp
        next
          case v: (Inr pv)
          obtain val rest2 where pv: "pv = (val, rest2)" by (cases pv)
          from v pv have len3: "length rest2 < length (skip_ws cs)"
            by (auto dest: parse_value_length)
          show ?thesis
          proof (cases "skip_ws rest2")
            case Nil
            with that s q Inr p c c58 v pv show ?thesis by simp
          next
            case d: (Cons d ds)
            with that s q Inr p c c58 v pv
            have "parse_object n i (ps @ [(key, val)]) (skip_ws ds) = Inl Out_of_fuel"
              by (simp split: if_splits)
            from iho' [OF this] skip_ws_Cons_length [OF d] len3 skip_ws_length [of cs] len2 len1 s
            show ?thesis by simp
          qed
        qed
      qed
    qed
  qed
  ultimately show ?case by blast
qed

lemma json_loads_fuel: "json_loads i s \<noteq> Inl Out_of_fuel"
proof -
  have "parse_value (2 * length s + 1) i (skip_ws s) \<noteq> Inl Out_of_fuel"
  proof
    assume "parse_value (2 * length s + 1) i (skip_ws s) = Inl Out_of_fuel"
    with parse_fuel have "2 * length s + 1 \<le> 2 * length (skip_ws s)" by blast
    with skip_ws_length [of s] show False by simp
  qed
  then show ?thesis
    unfolding json_loads_def
    by (cases "parse_value (2 * length s + 1) i (skip_ws s)") (simp_all only: sum.case prod.case split: if_split prod.split, auto)
qed

section \<open>Properties of the Extraction Client and the Response Parser\<close>

lemma candidate_text_envelope: "candidate_text \<lparr>status_code = c, resp_text = t, resp_json = Inr (envelope v)\<rparr> = Inr v"
  by (simp add: candidate_text_def then_getitem_def envelope_def lit_def)

text \<open>
  C8 (amended). When the network answers with a response, \<open>query_gemini\<close> sends exactly one
  request. It reports a failure exactly when the response is non-success (it then shows
  the status code and the response body) or the envelope of a success response lacks the
  expected nested fields (it then shows the message of the exception), and it returns
  \<open>None\<close> in both cases. Otherwise it shows nothing and returns the text part of the
  first candidate as it is. So the returned value is \<open>None\<close> exactly in the two reported
  cases and when the text part itself is \<open>null\<close>.
\<close>

theorem query_gemini_outcomes:
  assumes "post (gemini_request prompt api_key) = Inr r"
  shows
    "sent (snd (query_gemini post prompt api_key s)) = sent s @ [gemini_request prompt api_key] \<and>
     (\<not> resp_ok r \<longrightarrow>
        fst (query_gemini post prompt api_key s) = Inr PyNone \<and>
        shown (snd (query_gemini post prompt api_key s)) =
          shown s @ [St_error (lit ''Gemini API Error: '' @ str_of_nat (status_code r)),
                     St_text (resp_text r)]) \<and>
     (\<forall>e. resp_ok r \<and> candidate_text r = Inl e \<longrightarrow>
        fst (query_gemini post prompt api_key s) = Inr PyNone \<and>
        shown (snd (query_gemini post prompt api_key s)) =
          shown s @ [St_error (lit ''Parsing Gemini response failed: '' @ exn_str e)]) \<and>
     (\<forall>v. resp_ok r \<and> candidate_text r = Inr v \<longrightarrow>
        fst (query_gemini post prompt api_key s) = Inr v \<and>
        shown (snd (query_gemini post prompt api_key s)) = shown s) \<and>
     (shown (snd (query_gemini post prompt api_key s)) \<noteq> shown s \<longleftrightarrow>
        \<not> resp_ok r \<or> (\<exists>e. candidate_text r = Inl e)) \<and>
     (fst (query_gemini post prompt api_key s) = Inr PyNone \<longleftrightarrow>
        \<not> resp_ok r \<or> (\<exists>e. candidate_text r = Inl e) \<or> candidate_text r = Inr PyNone)"
  using assms
  by (cases "candidate_text r") (auto simp: query_gemini_def Let_def)

theorem query_gemini_outcomes_witness:
  "example_post \<lparr>status_code = 500, resp_text = lit ''Internal error'',
                   resp_json = Inl (JSONDecodeError (lit ''Expecting value''))\<rparr>
     (gemini_request (lit ''p'') (lit ''k'')) =
     Inr \<lparr>status_code = 500, resp_text = lit ''Internal error'',
          resp_json = Inl (JSONDecodeError (lit ''Expecting value''))\<rparr> \<and>
   query_gemini
     (example_post \<lparr>status_code = 500, resp_text = lit ''Internal error'',
                     resp_json = Inl (JSONDecodeError (lit ''Expecting value''))\<rparr>)
     (lit ''p'') (lit ''k'') \<lparr>shown = [], sent = []\<rparr> =
     (Inr PyNone,
      \<lparr>shown = [St_error (lit ''Gemini API Error: 500''), St_text (lit ''Internal error'')],
       sent = [gemini_request (lit ''p'') (lit ''k'')]\<rparr>) \<and>
   query_gemini
     (example_post \<lparr>status_code = 200, resp_text = lit ''{}'',
                     resp_json = Inr (PyDict [(lit ''error'', PyInt 1)])\<rparr>)
     (lit ''p'') (lit ''k'') \<lparr>shown = [], sent = []\<rparr> =
     (Inr PyNone,
      \<lparr>shown = [St_error (lit ''Parsing Gemini response failed: '' @ [39] @ lit ''candidates'' @ [39])],
       sent = [gemini_request (lit ''p'') (lit ''k'')]\<rparr>) \<and>
   query_gemini
     (example_post \<lparr>status_code = 200, resp_text = [], resp_json = Inr good_envelope\<rparr>)
     (lit ''p'') (lit ''k'') \<lparr>shown = [], sent = []\<rparr> =
     (Inr (PyStr (lit ''{}'')),
      \<lparr>shown = [], sent = [gemini_request (lit ''p'') (lit ''k'')]\<rparr>)"
proof -
  let ?r1 = "\<lparr>status_code = 500, resp_text = lit ''Internal error'',
               resp_json = Inl (JSONDecodeError (lit ''Expecting value''))\<rparr>"
  let ?r2 = "\<lparr>status_code = 200, resp_text = lit ''{}'',
               resp_json = Inr (PyDict [(lit ''error'', PyInt 1)])\<rparr>"
  let ?r3 = "\<lparr>status_code = 200, resp_text = [], resp_json = Inr good_envelope\<rparr>"
  let ?s = "\<lparr>shown = [], sent = []\<rparr>"
  have p: "example_post r (gemini_request (lit ''p'') (lit ''k'')) = Inr r" for r
    by (simp add: example_post_def)
  have ok: "\<not> resp_ok ?r1" "resp_ok ?r2" "resp_ok ?r3"
    by (simp_all add: resp_ok_def)
  have c2: "candidate_text ?r2 = Inl (KeyError ([39] @ lit ''candidates'' @ [39]))"
    by (simp add: candidate_text_def then_getitem_def repr_key_def lit_def)
  have c3: "candidate_text ?r3 = Inr (PyStr (lit ''{}''))"
    by (simp add: good_envelope_def candidate_text_envelope)
  have n: "str_of_nat 500 = lit ''500''"
    by (simp add: str_of_nat.simps lit_def)
  have eq: "q = (a, \<lparr>shown = b, sent = c\<rparr>)" if "fst q = a" "shown (snd q) = b" "sent (snd q) = c"
    for q :: "(py_exn + py_value) \<times> session" and a b c
    using that by (cases q) auto
  from query_gemini_outcomes [of "example_post ?r1" "lit ''p''" "lit ''k''" ?r1 ?s, OF p] ok(1) n
  have 1: "query_gemini (example_post ?r1) (lit ''p'') (lit ''k'') ?s =
     (Inr PyNone,
      \<lparr>shown = [St_error (lit ''Gemini API Error: 500''), St_text (lit ''Internal error'')],
       sent = [gemini_request (lit ''p'') (lit ''k'')]\<rparr>)"
    by (intro eq) (simp_all add: lit_def)
  from query_gemini_outcomes [of "example_post ?r2" "lit ''p''" "lit ''k''" ?r2 ?s, OF p] ok(2) c2
  have 2: "query_gemini (example_post ?r2) (lit ''p'') (lit ''k'') ?s =
     (Inr PyNone,
      \<lparr>shown = [St_error (lit ''Parsing Gemini response failed: '' @ [39] @ lit ''candidates'' @ [39])],
       sent = [gemini_request (lit ''p'') (lit ''k'')]\<rparr>)"
    by (intro eq) simp_all
  from query_gemini_outcomes [of "example_post ?r3" "lit ''p''" "lit ''k''" ?r3 ?s, OF p] ok(3) c3
  have 3: "query_gemini (example_post ?r3) (lit ''p'') (lit ''k'') ?s =
     (Inr (PyStr (lit ''{}'')),
      \<lparr>shown = [], sent = [gemini_request (lit ''p'') (lit ''k'')]\<rparr>)"
    by (intro eq) simp_all
  from p [of ?r1] 1 2 3 show ?thesis by (intro conjI)
qed

text \<open>
  The claim as stated fails: a success response with a complete envelope whose text part
  is \<open>null\<close> makes the function return \<open>None\<close>, the failure value, with nothing shown.
\<close>

theorem null_text_counterexample:
  "resp_ok \<lparr>status_code = 200, resp_text = [], resp_json = Inr (envelope PyNone)\<rparr> \<and>
   candidate_text \<lparr>status_code = 200, resp_text = [], resp_json = Inr (envelope PyNone)\<rparr> =
     Inr PyNone \<and>
   query_gemini
     (example_post \<lparr>status_code = 200, resp_text = [], resp_json = Inr (envelope PyNone)\<rparr>)
     (lit ''p'') (lit ''k'') \<lparr>shown = [], sent = []\<rparr> =
     (Inr PyNone, \<lparr>shown = [], sent = [gemini_request (lit ''p'') (lit ''k'')]\<rparr>)"
  by (simp add: resp_ok_def candidate_text_envelope query_gemini_def example_post_def Let_def)

text \<open>
  A run of opening brackets: it is no JSON text, and the decoder finds that out only if
  the interpreter lets it enter one array per bracket.
\<close>

lemma brackets_recursion:
  "recursion_depth i < n \<Longrightarrow> 2 * recursion_depth i < fuel \<Longrightarrow>
   parse_value fuel i (replicate n 91) = Inl Recursion_error"
proof (induction "recursion_depth i" arbitrary: i n fuel)
  case 0
  then obtain f m where "fuel = Suc f" "n = Suc m"
    by (cases fuel; cases n) auto
  with 0 show ?case by simp
next
  case (Suc d)
  from Suc.prems Suc.hyps(2) obtain f m where f: "fuel = Suc (Suc f)" and n: "n = Suc (Suc m)"
    by (cases fuel; cases n; cases "fuel - 1"; cases "n - 1") auto
  let ?i = "i\<lparr>recursion_depth := recursion_depth i - 1\<rparr>"
  have d: "d = recursion_depth ?i"
    using Suc.hyps(2) by simp
  have "parse_value f ?i (replicate (Suc m) 91) = Inl Recursion_error"
    using Suc.hyps(1) [OF d, of "Suc m" f] Suc.prems Suc.hyps(2) f n by simp
  then show ?case
    using Suc.hyps(2) f n
    by (simp add: skip_ws_def is_json_ws_def del: replicate_Suc replicate.simps)
       (simp add: skip_ws_def is_json_ws_def)
qed

lemma brackets_invalid:
  "0 < n \<Longrightarrow> n \<le> recursion_depth i \<Longrightarrow> 2 * n \<le> fuel + 1 \<Longrightarrow>
   parse_value fuel i (replicate n 91) = Inl Expecting_value"
proof (induction n arbitrary: i fuel)
  case 0
  then show ?case by simp
next
  case (Suc m)
  show ?case
  proof (cases m)
    case 0
    with Suc.prems obtain f where "fuel = Suc f" by (cases fuel) auto
    with 0 Suc.prems show ?thesis by (simp add: skip_ws_def)
  next
    case (Suc k)
    with Suc.prems obtain f where f: "fuel = Suc (Suc f)"
      by (cases fuel; cases "fuel - 1") auto
    let ?i = "i\<lparr>recursion_depth := recursion_depth i - 1\<rparr>"
    have "parse_value f ?i (replicate m 91) = Inl Expecting_value"
      using Suc.IH [of ?i f] Suc.prems Suc f by simp
    with Suc Suc.prems f show ?thesis
      by (simp add: skip_ws_def is_json_ws_def)
  qed
qed

lemma brackets_no_fence: "\<not> sublist fence (replicate n 91)"
proof
  assume "sublist fence (replicate n 91)"
  then have "set fence \<subseteq> set (replicate n 91)"
    by (rule set_mono_sublist)
  then show False
    by (auto simp: fence_eq)
qed

lemma cleaned_brackets: "cleaned (replicate n 91) = replicate n 91"
proof -
  have "dropWhile py_isspace (replicate n 91) = replicate n 91"
    by (cases n) (simp_all add: py_isspace_def)
  then show ?thesis
    by (simp add: cleaned_def py_strip_def re_sub_fences_no_fence [OF brackets_no_fence])
qed

lemma skip_ws_brackets: "skip_ws (replicate n 91) = replicate n 91"
  by (cases n) (simp_all add: skip_ws_def is_json_ws_def)

lemma json_loads_brackets_recursion:
  "json_loads (interpreter_with d) (replicate (Suc d) 91) = Inl Recursion_error"
proof -
  have "parse_value (2 * length (replicate (Suc d) (91::nat)) + 1) (interpreter_with d)
          (replicate (Suc d) 91) = Inl Recursion_error"
    by (rule brackets_recursion) (simp_all add: interpreter_with_def)
  then show ?thesis
    unfolding json_loads_def skip_ws_brackets by simp
qed

lemma json_loads_brackets_invalid:
  "json_loads (interpreter_with (Suc d)) (replicate (Suc d) 91) = Inl Expecting_value"
proof -
  have "parse_value (2 * length (replicate (Suc d) (91::nat)) + 1) (interpreter_with (Suc d))
          (replicate (Suc d) 91) = Inl Expecting_value"
    by (rule brackets_invalid) (simp_all add: interpreter_with_def)
  then show ?thesis
    unfolding json_loads_def skip_ws_brackets by simp
qed

text \<open>
  C9 (amended). When \<open>json.loads\<close> raises \<open>JSONDecodeError\<close> on the text left after fence
  stripping, \<open>parse_json_response\<close> shows the error and the raw text and returns \<open>None\<close>;
  it decodes once and repairs nothing. Any other exception of \<open>json.loads\<close> is not caught
  and leaves the function: \<open>RecursionError\<close> when the text nests deeper than the
  interpreter allows, \<open>ValueError\<close> when an integer literal has more digits than the
  interpreter converts.
\<close>

theorem decode_error_is_reported:
  assumes "json_loads i (cleaned result) = Inl e"
  shows "(is_JSONDecodeError e \<longrightarrow>
            parse_json_response i result ui =
              (Inr PyNone, ui @ [St_error (lit ''JSON parse error''), St_text result])) \<and>
         (\<not> is_JSONDecodeError e \<longrightarrow>
            parse_json_response i result ui = (Inl e, ui) \<and>
            (e = Recursion_error \<or> e = Int_digits_error))"
  using assms json_loads_fuel [of i "cleaned result"]
  by (auto simp: parse_json_response_def is_JSONDecodeError_def)

theorem decode_error_is_reported_witness:
  "json_loads (interpreter_with 1000) (cleaned (lit ''not json'')) = Inl Expecting_value \<and>
   is_JSONDecodeError Expecting_value \<and>
   parse_json_response (interpreter_with 1000) (lit ''not json'') [] =
     (Inr PyNone, [St_error (lit ''JSON parse error''), St_text (lit ''not json'')])"
proof -
  have c: "cleaned (lit ''not json'') = lit ''not json''"
    by (simp add: cleaned_def py_strip_def py_isspace_def fence_eq fence_json_eq lit_def)
  have h: "json_loads (interpreter_with 1000) (cleaned (lit ''not json'')) = Inl Expecting_value"
    unfolding c by (simp add: json_eval parse_numeral interpreter_with_def)
  have d: "is_JSONDecodeError Expecting_value"
    by (simp add: is_JSONDecodeError_def)
  from decode_error_is_reported [OF h, of "[]"] h d show ?thesis by simp
qed

text \<open>
  The claim as stated fails: 1001 opening brackets are not valid JSON (an interpreter
  that can nest that deep raises the decode error), and with 1000 nested calls left
  \<open>RecursionError\<close> leaves \<open>parse_json_response\<close> with nothing shown.
\<close>

theorem deep_nesting_counterexample:
  "json_loads (interpreter_with 1001) (cleaned (replicate 1001 91)) = Inl Expecting_value \<and>
   json_loads (interpreter_with 1000) (cleaned (replicate 1001 91)) = Inl Recursion_error \<and>
   parse_json_response (interpreter_with 1000) (replicate 1001 91) [] = (Inl Recursion_error, [])"
proof -
  have n: "(1001::nat) = Suc 1000" by simp
  have a: "json_loads (interpreter_with 1001) (cleaned (replicate 1001 91)) = Inl Expecting_value"
    unfolding cleaned_brackets using json_loads_brackets_invalid [of 1000] by (simp only: n)
  have b: "json_loads (interpreter_with 1000) (cleaned (replicate 1001 91)) = Inl Recursion_error"
    unfolding cleaned_brackets using json_loads_brackets_recursion [of 1000] by (simp only: n)
  from a b show ?thesis
    by (simp add: parse_json_response_def is_JSONDecodeError_def)
qed

text \<open>
  C10. Whatever value the text decodes to after fence stripping, an array, a number, a
  string, a boolean or \<open>null\<close> as well as an object, \<open>parse_json_response\<close> returns that
  value and shows nothing: the result is not checked to be an object.
\<close>

theorem any_json_value_is_returned:
  assumes "json_loads i (cleaned result) = Inr v"
  shows "parse_json_response i result ui = (Inr v, ui)"
  using assms by (simp add: parse_json_response_def)

theorem any_json_value_is_returned_witness:
  \<open>json_loads (interpreter_with 1000) (cleaned (lit ''```json [1, "x"] ```'')) =
     Inr (PyList [PyInt 1, PyStr (lit ''x'')]) \<and>
   parse_json_response (interpreter_with 1000) (lit ''```json [1, "x"] ```'') [] =
     (Inr (PyList [PyInt 1, PyStr (lit ''x'')]), []) \<and>
   parse_json_response (interpreter_with 1000) (lit ''-12'') [] = (Inr (PyInt (- 12)), []) \<and>
   parse_json_response (interpreter_with 1000) (lit ''"Buy"'') [] = (Inr (PyStr (lit ''Buy'')), []) \<and>
   parse_json_response (interpreter_with 1000) (lit ''false'') [] = (Inr (PyBool False), []) \<and>
   parse_json_response (interpreter_with 1000) (lit ''null'') [] = (Inr PyNone, [])\<close>
proof -
  have c: \<open>cleaned (lit ''```json [1, "x"] ```'') = lit ''[1, "x"]''\<close>
    "cleaned (lit ''-12'') = lit ''-12''"
    \<open>cleaned (lit ''"Buy"'') = lit ''"Buy"''\<close>
    "cleaned (lit ''false'') = lit ''false''"
    "cleaned (lit ''null'') = lit ''null''"
    by (simp_all add: cleaned_def py_strip_def py_isspace_def fence_eq fence_json_eq lit_def)
  have h1: \<open>json_loads (interpreter_with 1000) (cleaned (lit ''```json [1, "x"] ```'')) =
              Inr (PyList [PyInt 1, PyStr (lit ''x'')])\<close>
    unfolding c by (simp add: json_eval parse_numeral interpreter_with_def)
  have h2: "json_loads (interpreter_with 1000) (cleaned (lit ''-12'')) = Inr (PyInt (- 12))"
    unfolding c by (simp add: json_eval parse_numeral interpreter_with_def)
  have h3: \<open>json_loads (interpreter_with 1000) (cleaned (lit ''"Buy"'')) = Inr (PyStr (lit ''Buy''))\<close>
    unfolding c by (simp add: json_eval parse_numeral interpreter_with_def)
  have h4: "json_loads (interpreter_with 1000) (cleaned (lit ''false'')) = Inr (PyBool False)"
    unfolding c by (simp add: json_eval parse_numeral interpreter_with_def)
  have h5: "json_loads (interpreter_with 1000) (cleaned (lit ''null'')) = Inr PyNone"
    unfolding c by (simp add: json_eval parse_numeral interpreter_with_def)
  from h1 any_json_value_is_returned [OF h1, of "[]"] any_json_value_is_returned [OF h2, of "[]"]
    any_json_value_is_returned [OF h3, of "[]"] any_json_value_is_returned [OF h4, of "[]"]
    any_json_value_is_returned [OF h5, of "[]"]
  show ?thesis by (intro conjI)
qed

end
